theory Spec2Isabelle
  imports Main "HOL-Library.Sublist"
begin

section \<open>Go strings and the library calls the council uses\<close>

text \<open>
  A Go string is a sequence of bytes; \<^typ>\<open>string\<close> (a list of 8-bit characters) is
  exactly that.  The functions below are the parts of package \<open>strings\<close> and
  \<open>fmt\<close> that \<open>internal/council\<close> calls.
\<close>

text \<open>\<open>strings.Contains(s, substr)\<close>: some suffix of \<open>s\<close> starts with \<open>substr\<close>.\<close>

fun Contains :: "string \<Rightarrow> string \<Rightarrow> bool" where
  "Contains [] substr = (substr = [])"
| "Contains (c # cs) substr = (prefix substr (c # cs) \<or> Contains cs substr)"

text \<open>
  \<open>strings.Split(s, "\n")\<close>, the only separator the council uses: the pieces between
  the line feeds, of which there is always at least one (the empty text gives one empty
  line).
\<close>

fun Split :: "string \<Rightarrow> string list" where
  "Split [] = [[]]"
| "Split (c # cs) =
     (if c = CHR 0x0A then [] # Split cs
      else (case Split cs of [] \<Rightarrow> [[c]] | piece # pieces \<Rightarrow> (c # piece) # pieces))"

text \<open>
  \<open>unicode.IsSpace\<close> holds of the runes U+0009..U+000D, U+0020, U+0085, U+00A0, U+1680,
  U+2000..U+200A, U+2028, U+2029, U+202F, U+205F and U+3000.  \<open>space_runes\<close> lists their
  UTF-8 encodings.  Go decodes a rune from the front (and, for the right end, from the
  back) of the byte string and takes an ill-formed byte as U+FFFD, which is no space: a
  string starts (ends) with a space rune exactly when it starts (ends) with one of these
  byte sequences.
\<close>

definition space_runes :: "string list" where
  "space_runes =
     [[CHR 0x09], [CHR 0x0A], [CHR 0x0B], [CHR 0x0C], [CHR 0x0D], [CHR 0x20],
      [CHR 0xC2, CHR 0x85], [CHR 0xC2, CHR 0xA0],
      [CHR 0xE1, CHR 0x9A, CHR 0x80],
      [CHR 0xE2, CHR 0x80, CHR 0x80], [CHR 0xE2, CHR 0x80, CHR 0x81],
      [CHR 0xE2, CHR 0x80, CHR 0x82], [CHR 0xE2, CHR 0x80, CHR 0x83],
      [CHR 0xE2, CHR 0x80, CHR 0x84], [CHR 0xE2, CHR 0x80, CHR 0x85],
      [CHR 0xE2, CHR 0x80, CHR 0x86], [CHR 0xE2, CHR 0x80, CHR 0x87],
      [CHR 0xE2, CHR 0x80, CHR 0x88], [CHR 0xE2, CHR 0x80, CHR 0x89],
      [CHR 0xE2, CHR 0x80, CHR 0x8A],
      [CHR 0xE2, CHR 0x80, CHR 0xA8], [CHR 0xE2, CHR 0x80, CHR 0xA9],
      [CHR 0xE2, CHR 0x80, CHR 0xAF], [CHR 0xE2, CHR 0x81, CHR 0x9F],
      [CHR 0xE3, CHR 0x80, CHR 0x80]]"

text \<open>The width in bytes of the space rune at the front of \<open>s\<close>; 0 when there is none.\<close>

definition leading_space :: "string list \<Rightarrow> string \<Rightarrow> nat" where
  "leading_space runes s =
     (case find (\<lambda>r. prefix r s) runes of None \<Rightarrow> 0 | Some r \<Rightarrow> length r)"

text \<open>
  \<open>strings.TrimLeftFunc(s, unicode.IsSpace)\<close>, with the encodings as a parameter so that
  the right end can reuse it on the reversed string: as long as a space rune leads, it
  is dropped.
\<close>

function trim_front :: "string list \<Rightarrow> string \<Rightarrow> string" where
  "trim_front runes s =
     (if leading_space runes s = 0 \<or> s = [] then s
      else trim_front runes (drop (leading_space runes s) s))"
  by pat_completeness auto
termination
  by (relation "measure (\<lambda>(runes, s). length s)") auto

declare trim_front.simps [simp del]

definition TrimLeft :: "string \<Rightarrow> string" where
  "TrimLeft s = trim_front space_runes s"

definition TrimRight :: "string \<Rightarrow> string" where
  "TrimRight s = rev (trim_front (map rev space_runes) (rev s))"

text \<open>\<open>strings.TrimSpace(s)\<close>: the space runes cut from the front, then from the back.\<close>

definition TrimSpace :: "string \<Rightarrow> string" where
  "TrimSpace s = TrimRight (TrimLeft s)"

text \<open>
  \<open>fmt.Sprintf("%d", n)\<close>: the decimal digits, most significant first, and a minus sign
  for a negative number.
\<close>

definition digit_char :: "nat \<Rightarrow> char" where
  "digit_char d = ''0123456789'' ! d"

function digits :: "nat \<Rightarrow> string" where
  "digits n = (if n < 10 then [digit_char n] else digits (n div 10) @ [digit_char (n mod 10)])"
  by pat_completeness auto
termination
  by (relation "measure id") auto

declare digits.simps [simp del]

definition Sprintf_d :: "int \<Rightarrow> string" where
  "Sprintf_d n = (if n < 0 then CHR ''-'' # digits (nat (- n)) else digits (nat n))"


section \<open>The review-rank extractor\<close>

text \<open>
  \<open>type Ranking struct { ResponseIndex int; Rank int; Reasoning string }\<close>.  Go's
  \<open>int\<close> is 64 bits wide; \<open>rank\<close> starts at 1 and grows by one for at most every line of
  the review, so it never reaches the point where it would wrap, and \<^typ>\<open>int\<close> holds
  every value it takes.
\<close>

record Ranking =
  ResponseIndex :: int
  Rank :: int
  Reasoning :: string

definition labels :: "string list" where
  "labels = [''A'', ''B'', ''C'', ''D'', ''E'', ''F'', ''G'', ''H'']"

text \<open>
  The condition of the \<open>if\<close> in the inner loop of \<open>parseRankings\<close>: the line names the
  response and holds the sought rank followed by a full stop or a colon.
\<close>

definition line_matches :: "string \<Rightarrow> int \<Rightarrow> string \<Rightarrow> bool" where
  "line_matches line rank label \<longleftrightarrow>
     Contains line (''Response '' @ label) \<and>
     (Contains line (Sprintf_d rank @ ''.'') \<or> Contains line (Sprintf_d rank @ '':''))"

text \<open>
  The inner loop \<open>for i, label := range labels\<close>, entered at index \<open>i\<close> with the labels
  from there on: it stops at \<open>i >= numResponses\<close>, and at the first label whose
  condition holds it leaves with that index.
\<close>

fun first_label :: "string \<Rightarrow> int \<Rightarrow> int \<Rightarrow> nat \<Rightarrow> string list \<Rightarrow> nat option" where
  "first_label line rank numResponses i [] = None"
| "first_label line rank numResponses i (label # rest) =
     (if int i \<ge> numResponses then None
      else if line_matches line rank label then Some i
      else first_label line rank numResponses (Suc i) rest)"

text \<open>
  The outer loop \<open>for _, line := range lines\<close>, its state the slice \<open>rankings\<close> and the
  counter \<open>rank\<close>.
\<close>

fun scan_lines :: "int \<Rightarrow> string list \<Rightarrow> Ranking list \<times> int \<Rightarrow> Ranking list \<times> int" where
  "scan_lines numResponses [] st = st"
| "scan_lines numResponses (l # ls) (rankings, rank) =
     (let line = TrimSpace l in
      case first_label line rank numResponses 0 labels of
        None \<Rightarrow> scan_lines numResponses ls (rankings, rank)
      | Some i \<Rightarrow>
          scan_lines numResponses ls
            (rankings @ [\<lparr>ResponseIndex = int i, Rank = rank, Reasoning = line\<rparr>], rank + 1))"

definition parseRankings :: "string \<Rightarrow> int \<Rightarrow> Ranking list" where
  "parseRankings reviewContent numResponses =
     fst (scan_lines numResponses (Split reviewContent) ([], 1))"


section \<open>The Copilot client\<close>

text \<open>
  \<open>time.Duration\<close> is a count of nanoseconds.  An \<open>error\<close> is known to the council only
  as nil or not nil and by its message (\<open>%w\<close> and \<open>%v\<close> print it), so an error value is
  its message and a Go \<open>error\<close> that may be nil is an \<open>error option\<close>.
\<close>

type_synonym duration = int
type_synonym error = string

text \<open>\<open>type Response struct { Model string; Content string; Error error; Duration time.Duration }\<close>\<close>

record Response =
  Model :: string
  Content :: string
  Error :: "error option"
  Duration :: duration

text \<open>
  The Copilot SDK is outside the repository.  What the client code observes of one
  session is which of its four ways out is taken: \<open>CreateSession\<close> of the SDK returns an
  error; \<open>session.Send\<close> returns an error; the session reports \<open>session.idle\<close>, with the
  content of the last \<open>assistant.message\<close> event before it (the empty string when there
  was none, or when it held no content); or the context of the call is done first, which
  is the per-call deadline passing (or the caller's context being cancelled).  With it
  comes the reading \<open>time.Since(startTime)\<close> taken on that way out.
\<close>

datatype sdk_outcome =
    CreateSessionFails error
  | SendFails error
  | SessionIdle string
  | ContextDone

record sdk_run =
  outcome :: sdk_outcome
  elapsed :: duration

text \<open>The error of \<open>Client.CreateSession\<close>: \<open>"failed to create session for model %s: %w"\<close>.\<close>

definition CreateSession_error :: "string \<Rightarrow> error \<Rightarrow> error" where
  "CreateSession_error model e = ''failed to create session for model '' @ model @ '': '' @ e"

text \<open>\<open>AskSingleModel\<close>: the three values it returns on each way out of the session.\<close>

definition AskSingleModel :: "string \<Rightarrow> sdk_run \<Rightarrow> string \<times> duration \<times> error option" where
  "AskSingleModel model run =
     (case outcome run of
        CreateSessionFails e \<Rightarrow> ([], elapsed run, Some (CreateSession_error model e))
      | SendFails e \<Rightarrow> ([], elapsed run, Some (''failed to send message: '' @ e))
      | SessionIdle content \<Rightarrow> (content, elapsed run, None)
      | ContextDone \<Rightarrow> ([], elapsed run, Some ''timeout waiting for response''))"

text \<open>
  The body of the goroutine of \<open>AskMultipleModels\<close> for the model \<open>mdl\<close>: the value of
  \<open>resp\<close> that it stores in its slot.  It starts as \<open>Response{Model: mdl}\<close>.
\<close>

definition goroutine_response :: "string \<Rightarrow> sdk_run \<Rightarrow> Response" where
  "goroutine_response mdl run =
     (let resp = \<lparr>Model = mdl, Content = [], Error = None, Duration = 0\<rparr> in
      case outcome run of
        CreateSessionFails e \<Rightarrow>
          resp\<lparr>Error := Some (CreateSession_error mdl e), Duration := elapsed run\<rparr>
      | SendFails e \<Rightarrow>
          resp\<lparr>Error := Some (''failed to send message: '' @ e), Duration := elapsed run\<rparr>
      | SessionIdle content \<Rightarrow> resp\<lparr>Content := content, Duration := elapsed run\<rparr>
      | ContextDone \<Rightarrow>
          resp\<lparr>Error := Some ''timeout waiting for response'', Duration := elapsed run\<rparr>)"

text \<open>
  What the program does that its caller can observe besides the value returned: the calls
  of the two callbacks, and the entries into and returns from the client's two methods.
\<close>

datatype event =
    FanOut "string list" string
  | FanIn
  | CallBegin string string
  | CallEnd string
  | Progress string duration "error option"
  | Phase string int

text \<open>
  The call of the progress callback by the goroutine.  After a failed \<open>Send\<close> it is given
  the error of the SDK as it came, not the wrapped one stored in the response.
\<close>

definition goroutine_progress :: "string \<Rightarrow> sdk_run \<Rightarrow> event" where
  "goroutine_progress mdl run =
     Progress mdl (elapsed run)
       (case outcome run of
          CreateSessionFails e \<Rightarrow> Some (CreateSession_error mdl e)
        | SendFails e \<Rightarrow> Some e
        | SessionIdle content \<Rightarrow> None
        | ContextDone \<Rightarrow> Some ''timeout waiting for response'')"

text \<open>
  Everything the run of the council takes from outside: the order in which the goroutines
  of the fan-out come to store their slot (a goroutine is named by its index \<open>idx\<close>), what
  the SDK does in each of them, what it does in a call of \<open>AskSingleModel\<close> (which may
  depend on all that happened before, the last event being the entry into that call with
  its model and prompt), and what \<open>time.Since(reviewStart)\<close> reads in \<open>Execute\<close>.
\<close>

record env =
  completion :: "nat list"
  fanout :: "nat \<Rightarrow> sdk_run"
  single :: "event list \<Rightarrow> sdk_run"
  since_reviewStart :: duration

text \<open>
  \<open>wg.Wait()\<close> returns when every goroutine has called \<open>wg.Done()\<close>, and a goroutine
  stores its slot once: the completion order lists each index below \<open>n\<close> exactly once.
\<close>

definition completes_each_once :: "nat list \<Rightarrow> nat \<Rightarrow> bool" where
  "completes_each_once order n \<longleftrightarrow> distinct order \<and> set order = {0..<n}"

text \<open>\<open>responses[idx] = resp\<close>.\<close>

definition store_slot :: "string list \<Rightarrow> (nat \<Rightarrow> sdk_run) \<Rightarrow> Response list \<Rightarrow> nat \<Rightarrow> Response list" where
  "store_slot models runs responses idx =
     responses[idx := goroutine_response (models ! idx) (runs idx)]"

text \<open>
  \<open>AskMultipleModels\<close>: \<open>make([]Response, len(models))\<close> is a slice of zero values; the
  goroutines store into it in their completion order, each calling the progress callback
  when there is one; after \<open>wg.Wait()\<close> the slice is returned.
\<close>

definition AskMultipleModels :: "env \<Rightarrow> string list \<Rightarrow> string \<Rightarrow> bool \<Rightarrow> Response list \<times> event list" where
  "AskMultipleModels e models question progress =
     (foldl (store_slot models (fanout e))
        (replicate (length models) \<lparr>Model = [], Content = [], Error = None, Duration = 0\<rparr>)
        (completion e),
      FanOut models question #
      (if progress then map (\<lambda>idx. goroutine_progress (models ! idx) (fanout e idx)) (completion e)
       else []) @
      [FanIn])"

text \<open>A call of \<open>AskSingleModel\<close> in the course of a run, after the events \<open>tr\<close>.\<close>

definition call_single :: "env \<Rightarrow> event list \<Rightarrow> string \<Rightarrow> string \<Rightarrow> (string \<times> duration \<times> error option) \<times> event list" where
  "call_single e tr model question =
     (let entered = tr @ [CallBegin model question] in
      (AskSingleModel model (single e entered), entered @ [CallEnd model]))"


section \<open>The council\<close>

text \<open>
  The structs of package \<open>council\<close>.  \<open>Review\<close> and \<open>Result\<close> have fields called
  \<open>Duration\<close> and \<open>Error\<close> like \<open>Response\<close>; here they carry the name of their struct.  A
  nil slice and an empty one are both \<open>[]\<close>: the code only ranges over them and takes
  their length.
\<close>

record Config =
  Models :: "string list"
  Aggregator :: string
  Timeout :: duration
  Verbose :: bool
  OriginalQ :: string

record Review =
  ReviewerModel :: string
  Rankings :: "Ranking list"
  Review_Duration :: duration
  Review_Error :: "error option"

record Result =
  ModelResponses :: "Response list"
  Reviews :: "Review list"
  AggregatedResponse :: string
  AggregationDuration :: duration
  ReviewDuration :: duration
  InitialPrompt :: string
  ReviewPrompts :: "string \<rightharpoonup> string"
  AggregationPrompt :: string
  Result_Error :: "error option"

text \<open>The test \<open>resp.Error == nil && resp.Content != ""\<close> of \<open>Execute\<close> and \<open>conductPeerReview\<close>.\<close>

definition usable :: "Response \<Rightarrow> bool" where
  "usable resp \<longleftrightarrow> Error resp = None \<and> Content resp \<noteq> []"

text \<open>
  The loop \<open>for j, resp := range successfulResponses { if i != j { append } }\<close>, entered at
  index \<open>j\<close>.
\<close>

fun others :: "nat \<Rightarrow> nat \<Rightarrow> Response list \<Rightarrow> Response list" where
  "others i j [] = []"
| "others i j (resp # rest) =
     (if i \<noteq> j then resp # others i (Suc j) rest else others i (Suc j) rest)"

definition anonymizedResponses :: "nat \<Rightarrow> Response list \<Rightarrow> Response list" where
  "anonymizedResponses i successfulResponses = others i 0 successfulResponses"

text \<open>
  The loop of \<open>buildReviewPrompt\<close> over the anonymized responses, entered at index \<open>i\<close>:
  the responses that pass the guard \<open>i < len(labels)\<close>, each with the label it is written
  under.
\<close>

fun labelled :: "nat \<Rightarrow> Response list \<Rightarrow> (string \<times> Response) list" where
  "labelled i [] = []"
| "labelled i (resp # rest) =
     (if i < length labels then (labels ! i, resp) # labelled (Suc i) rest
      else labelled (Suc i) rest)"

definition buildReviewPrompt :: \<open>string \<Rightarrow> Response list \<Rightarrow> string\<close> where
  \<open>buildReviewPrompt question anonymized =
     ''You are an expert evaluator. Below are '' @ Sprintf_d (int (length anonymized)) @
     '' different responses to the question: "'' @ question @ ''"\<newline>'' @
     ''\<newline>'' @
     ''The responses are anonymized (labeled Response A, Response B, etc.).\<newline>'' @
     ''\<newline>'' @
     concat (map (\<lambda>(label, resp).
        ''## Response '' @ label @ '':\<newline>'' @ Content resp @ ''\<newline>\<newline>'')
       (labelled 0 anonymized)) @
     ''Please evaluate these responses based on:\<newline>'' @
     ''1. Accuracy of information\<newline>'' @
     ''2. Depth of insight\<newline>'' @
     ''3. Practical usefulness\<newline>'' @
     ''4. Clarity and conciseness\<newline>'' @
     ''\<newline>'' @
     ''Rank the responses from best to worst (1 = best) and explain your reasoning for each.\<newline>'' @
     ''Format your response as:\<newline>'' @
     ''\<newline>'' @
     ''Ranking:\<newline>'' @
     ''1. Response [X]: [brief reasoning]\<newline>'' @
     ''2. Response [Y]: [brief reasoning]\<newline>'' @
     ''...\<newline>'' @
     ''\<newline>'' @
     ''Be objective and focus on the quality of the content, not stylistic preferences.''\<close>

text \<open>
  The first loop of \<open>buildAggregationPrompt\<close>, over all responses, entered at index \<open>i\<close>:
  a failed response is shown by its error.
\<close>

fun response_sections :: "nat \<Rightarrow> Response list \<Rightarrow> string" where
  "response_sections i [] = []"
| "response_sections i (resp # rest) =
     ''### Response '' @ Sprintf_d (int i + 1) @ '' - '' @ Model resp @ '':\<newline>'' @
     (case Error resp of
        Some err \<Rightarrow> ''(Error: '' @ err @ '')\<newline>\<newline>''
      | None \<Rightarrow> Content resp @ ''\<newline>\<newline>'') @
     response_sections (Suc i) rest"

text \<open>The body of its second loop: a review is shown when it has no error and a ranking.\<close>

definition review_section :: "Review \<Rightarrow> string" where
  "review_section review =
     (if Review_Error review = None \<and> length (Rankings review) > 0
      then ''**'' @ ReviewerModel review @ (CHR 0x27 # ''s Review:**\<newline>'') @
           concat (map (\<lambda>ranking. ''- '' @ Reasoning ranking @ ''\<newline>'') (Rankings review)) @
           ''\<newline>''
      else [])"

definition buildAggregationPrompt :: \<open>string \<Rightarrow> Response list \<Rightarrow> Review list \<Rightarrow> string\<close> where
  \<open>buildAggregationPrompt originalQuestion responses reviews =
     ''You are the Chairman of an AI Council. Multiple AI models have answered the following question, and then peer-reviewed each other's responses.\<newline>'' @
     ''\<newline>'' @
     ''Original Question: "'' @ originalQuestion @ ''"\<newline>'' @
     ''\<newline>'' @
     ''## Council Members' Responses:\<newline>\<newline>'' @
     response_sections 0 responses @
     (if length reviews > 0
      then ''## Peer Review Results:\<newline>\<newline>'' @
           ''Each model reviewed the others' responses. Here are their evaluations:\<newline>\<newline>'' @
           concat (map review_section reviews)
      else []) @
     ''## Your Task as Chairman:\<newline>'' @
     ''\<newline>'' @
     ''Based on the council members' responses AND their peer reviews:\<newline>'' @
     ''\<newline>'' @
     ''1. Synthesize the BEST answer to the original question\<newline>'' @
     ''2. Take a CLEAR, DECISIVE stance - avoid vague "it depends" answers\<newline>'' @
     ''3. If there are multiple valid approaches, CHOOSE the best one and explain why\<newline>'' @
     ''4. Provide ACTIONABLE recommendations\<newline>'' @
     ''5. Support your decision with the strongest evidence from the responses\<newline>'' @
     ''\<newline>'' @
     ''The council expects a definitive answer. Be confident in your conclusion.\<newline>'' @
     ''\<newline>'' @
     ''Your final answer:''\<close>

text \<open>
  The loop \<open>for i, reviewer := range successfulResponses\<close> of \<open>conductPeerReview\<close>,
  entered at index \<open>i\<close> with the reviewers from there on.  Its state is the slice
  \<open>reviews\<close>, the map \<open>result.ReviewPrompts\<close> and the events so far.  The body is
  straight-line code: it builds the prompt, stores it under the reviewer's model, calls
  \<open>AskSingleModel\<close> and has its result before it goes on, reports to the progress
  callback when there is one, and parses the review when the call gave no error.
\<close>

fun review_loop ::
  "env \<Rightarrow> string \<Rightarrow> Response list \<Rightarrow> bool \<Rightarrow> nat \<Rightarrow> Response list \<Rightarrow>
   Review list \<times> (string \<rightharpoonup> string) \<times> event list \<Rightarrow>
   Review list \<times> (string \<rightharpoonup> string) \<times> event list" where
  "review_loop e question successfulResponses progress i [] st = st"
| "review_loop e question successfulResponses progress i (reviewer # rest) (reviews, prompts, tr) =
     (let anonymized = anonymizedResponses i successfulResponses;
          reviewPrompt = buildReviewPrompt question anonymized;
          prompts' = prompts(Model reviewer \<mapsto> reviewPrompt);
          ((reviewContent, duration, err), tr') = call_single e tr (Model reviewer) reviewPrompt;
          tr'' = tr' @ (if progress then [Progress (Model reviewer @ '' (review)'') duration err] else []);
          review = \<lparr>ReviewerModel = Model reviewer,
                    Rankings = (if err = None
                                then parseRankings reviewContent (int (length anonymized))
                                else []),
                    Review_Duration = duration,
                    Review_Error = err\<rparr>
      in review_loop e question successfulResponses progress (Suc i) rest
           (reviews @ [review], prompts', tr''))"

text \<open>
  \<open>conductPeerReview\<close>, given the map \<open>result.ReviewPrompts\<close> and the events so far, and
  giving back the reviews with both as it leaves them.
\<close>

definition conductPeerReview ::
  "env \<Rightarrow> string \<Rightarrow> Response list \<Rightarrow> bool \<Rightarrow> (string \<rightharpoonup> string) \<times> event list \<Rightarrow>
   Review list \<times> (string \<rightharpoonup> string) \<times> event list" where
  "conductPeerReview e question responses progress st =
     (let successfulResponses = filter usable responses in
      if length successfulResponses < 2 then ([], st)
      else review_loop e question successfulResponses progress 0 successfulResponses ([], st))"

text \<open>The loop of \<open>Execute\<close> that counts the responses without error and with text.\<close>

definition successCount :: "Response list \<Rightarrow> int" where
  "successCount responses = int (length (filter usable responses))"

text \<open>
  \<open>Execute\<close>: the result, and the events of the whole run.  \<open>progress\<close> and \<open>phase\<close> say
  whether the caller gave a progress callback and a phase callback (they may be nil).
  The fields not named in the composite literal start as zero values.
\<close>

definition Execute :: "env \<Rightarrow> Config \<Rightarrow> string \<Rightarrow> bool \<Rightarrow> bool \<Rightarrow> Result \<times> event list" where
  "Execute e cfg question progress phase =
     (let result = \<lparr>ModelResponses = [], Reviews = [], AggregatedResponse = [],
                    AggregationDuration = 0, ReviewDuration = 0, InitialPrompt = question,
                    ReviewPrompts = Map.empty, AggregationPrompt = [], Result_Error = None\<rparr>;
          (responses, tr) = AskMultipleModels e (Models cfg) question progress;
          result = result\<lparr>ModelResponses := responses\<rparr>
      in if successCount responses = 0
         then (result\<lparr>Result_Error := Some ''all models failed to respond''\<rparr>, tr)
         else
           let tr = tr @ (if phase then [Phase ''review'' (successCount responses)] else []);
               (reviews, prompts, tr) =
                 conductPeerReview e question responses progress (ReviewPrompts result, tr);
               result = result\<lparr>Reviews := reviews, ReviewPrompts := prompts,
                               ReviewDuration := since_reviewStart e\<rparr>;
               aggregationPrompt = buildAggregationPrompt question responses reviews;
               result = result\<lparr>AggregationPrompt := aggregationPrompt\<rparr>;
               ((aggregated, duration, err), tr) =
                 call_single e tr (Aggregator cfg) aggregationPrompt
           in case err of
                Some cause \<Rightarrow>
                  (result\<lparr>Result_Error := Some (''aggregation failed: '' @ cause)\<rparr>, tr)
              | None \<Rightarrow>
                  (result\<lparr>AggregatedResponse := aggregated, AggregationDuration := duration\<rparr>,
                   tr))"


section \<open>Reading a run\<close>

text \<open>
  Names for the points of a run of \<open>Execute\<close> that the properties speak about: the
  responses and events at the end of the fan-out, the reviews, prompts and events at the
  end of the peer review, and what the SDK does in the aggregator's call.
\<close>

definition stage1 :: "env \<Rightarrow> Config \<Rightarrow> string \<Rightarrow> bool \<Rightarrow> Response list \<times> event list" where
  "stage1 e cfg question progress = AskMultipleModels e (Models cfg) question progress"

definition stage2 ::
  "env \<Rightarrow> Config \<Rightarrow> string \<Rightarrow> bool \<Rightarrow> bool \<Rightarrow> Review list \<times> (string \<rightharpoonup> string) \<times> event list" where
  "stage2 e cfg question progress phase =
     conductPeerReview e question (fst (stage1 e cfg question progress)) progress
       (Map.empty,
        snd (stage1 e cfg question progress) @
        (if phase then [Phase ''review'' (successCount (fst (stage1 e cfg question progress)))]
         else []))"

definition aggregator_prompt :: "env \<Rightarrow> Config \<Rightarrow> string \<Rightarrow> bool \<Rightarrow> bool \<Rightarrow> string" where
  "aggregator_prompt e cfg question progress phase =
     buildAggregationPrompt question (fst (stage1 e cfg question progress))
       (fst (stage2 e cfg question progress phase))"

definition aggregator_run :: "env \<Rightarrow> Config \<Rightarrow> string \<Rightarrow> bool \<Rightarrow> bool \<Rightarrow> sdk_run" where
  "aggregator_run e cfg question progress phase =
     single e (snd (snd (stage2 e cfg question progress phase)) @
               [CallBegin (Aggregator cfg) (aggregator_prompt e cfg question progress phase)])"

text \<open>An outcome of a session that makes the call return an error.\<close>

fun failed :: "sdk_outcome \<Rightarrow> bool" where
  "failed (SessionIdle content) = False"
| "failed other = True"

text \<open>
  The calls of \<open>AskSingleModel\<close> in a list of events: the models called, in order, and the
  greatest number of calls that are entered and not yet returned at one time, counted
  from \<open>n\<close> open calls.
\<close>

fun callers :: "event list \<Rightarrow> string list" where
  "callers [] = []"
| "callers (CallBegin model question # rest) = model # callers rest"
| "callers (ev # rest) = callers rest"

fun open_after :: "nat \<Rightarrow> event \<Rightarrow> nat" where
  "open_after n (CallBegin model question) = Suc n"
| "open_after n (CallEnd model) = n - 1"
| "open_after n ev = n"

fun peak_open :: "nat \<Rightarrow> event list \<Rightarrow> nat" where
  "peak_open n [] = n"
| "peak_open n (ev # rest) = max n (peak_open (open_after n ev) rest)"


section \<open>Sample runs\<close>

text \<open>
  Runs to try the properties on.  The participants are called \<open>m0\<close>, \<open>m1\<close>, ... and the
  aggregator \<open>chair\<close>.  In \<open>sample_run order outcomes chair\<close> the goroutines of the fan-out
  finish in the given order, the session of participant \<open>idx\<close> ends as \<open>outcomes ! idx\<close>,
  every reviewer answers with a one-line ranking, the session of the aggregator ends as
  \<open>chair\<close>, and 1500 nanoseconds pass between the two readings of the clock around the
  peer review.
\<close>

definition sample_run :: "nat list \<Rightarrow> sdk_outcome list \<Rightarrow> sdk_outcome \<Rightarrow> env" where
  "sample_run order outcomes chair =
     \<lparr>completion = order,
      fanout = (\<lambda>idx. \<lparr>outcome = outcomes ! idx, elapsed = 5 + int idx\<rparr>),
      single = (\<lambda>tr. case last tr of
                  CallBegin model question \<Rightarrow>
                    if model = ''chair'' then \<lparr>outcome = chair, elapsed = 40\<rparr>
                    else \<lparr>outcome = SessionIdle ''1. Response A: fine'',
                          elapsed = int (length tr)\<rparr>
                | ev \<Rightarrow> \<lparr>outcome = ContextDone, elapsed = 0\<rparr>),
      since_reviewStart = 1500\<rparr>"

definition sample_cfg :: "nat \<Rightarrow> Config" where
  "sample_cfg n =
     \<lparr>Models = map (\<lambda>k. ''m'' @ Sprintf_d (int k)) [0..<n], Aggregator = ''chair'',
      Timeout = 120000000000, Verbose = False, OriginalQ = ''why?''\<rparr>"

text \<open>Ten responses without error and with text, as ten participants would give.\<close>

definition ten_responses :: "Response list" where
  "ten_responses =
     map (\<lambda>k. \<lparr>Model = ''m'' @ Sprintf_d (int k), Content = ''answer '' @ Sprintf_d (int k),
               Error = None, Duration = 1\<rparr>) [0..<10]"


section \<open>Properties of the review-rank extractor\<close>

text \<open>
  The inner loop returns an index only from the part of the alphabet it was given, below
  the eligible count, and it is the first index there whose label matches the line.
\<close>

lemma first_label_bounds:
  "first_label line rank n i ls = Some k \<Longrightarrow> i \<le> k \<and> k < i + length ls \<and> int k < n"
  by (induction ls arbitrary: i) (fastforce split: if_splits)+

lemma first_label_first:
  "first_label line rank n i ls = Some k \<Longrightarrow>
     line_matches line rank (ls ! (k - i)) \<and>
     (\<forall>j. i \<le> j \<and> j < k \<longrightarrow> \<not> line_matches line rank (ls ! (j - i)))"
proof (induction ls arbitrary: i)
  case Nil
  then show ?case by simp
next
  case (Cons label rest)
  show ?case
  proof (cases "line_matches line rank label")
    case True
    with Cons.prems show ?thesis by (simp split: if_splits)
  next
    case False
    with Cons.prems have rec: "first_label line rank n (Suc i) rest = Some k"
      by (simp split: if_splits)
    from first_label_bounds [OF rec] have ik: "Suc i \<le> k" by simp
    from Cons.IH [OF rec] have
      m: "line_matches line rank (rest ! (k - Suc i))" and
      f: "\<forall>j. Suc i \<le> j \<and> j < k \<longrightarrow> \<not> line_matches line rank (rest ! (j - Suc i))"
      by simp_all
    have "(label # rest) ! (k - i) = rest ! (k - Suc i)"
      using ik by (simp add: nth_Cons')
    moreover have "\<not> line_matches line rank ((label # rest) ! (j - i))" if "i \<le> j" "j < k" for j
    proof (cases "j = i")
      case True
      then show ?thesis using False by simp
    next
      case neq: False
      with that have "Suc i \<le> j" by simp
      with f that have "\<not> line_matches line rank (rest ! (j - Suc i))" by simp
      moreover have "(label # rest) ! (j - i) = rest ! (j - Suc i)"
        using \<open>Suc i \<le> j\<close> by (simp add: nth_Cons')
      ultimately show ?thesis by simp
    qed
    ultimately show ?thesis using m by simp
  qed
qed

lemma scan_lines_acc:
  "scan_lines n ls (acc, r) =
     (acc @ fst (scan_lines n ls ([], r)), snd (scan_lines n ls ([], r)))"
proof (induction ls arbitrary: acc r)
  case Nil
  show ?case by simp
next
  case (Cons l ls)
  show ?case
  proof (cases "first_label (TrimSpace l) r n 0 labels")
    case None
    then show ?thesis using Cons.IH [of acc r] Cons.IH [of "[]" r] by simp
  next
    case (Some i)
    then show ?thesis
      using Cons.IH [of "acc @ [\<lparr>ResponseIndex = int i, Rank = r, Reasoning = TrimSpace l\<rparr>]" "r + 1"]
        Cons.IH [of "[\<lparr>ResponseIndex = int i, Rank = r, Reasoning = TrimSpace l\<rparr>]" "r + 1"]
      by simp
  qed
qed

lemma scan_lines_ranks:
  "map Rank (fst (scan_lines n ls ([], r))) =
     map (\<lambda>j. r + int j) [0..<length (fst (scan_lines n ls ([], r)))]"
proof (induction ls arbitrary: r)
  case Nil
  show ?case by simp
next
  case (Cons l ls)
  show ?case
  proof (cases "first_label (TrimSpace l) r n 0 labels")
    case None
    then show ?thesis using Cons.IH [of r] by simp
  next
    case (Some i)
    let ?rest = "fst (scan_lines n ls ([], r + 1))"
    have "scan_lines n (l # ls) ([], r) =
            scan_lines n ls ([\<lparr>ResponseIndex = int i, Rank = r, Reasoning = TrimSpace l\<rparr>], r + 1)"
      using Some by simp
    then have out: "fst (scan_lines n (l # ls) ([], r)) =
        \<lparr>ResponseIndex = int i, Rank = r, Reasoning = TrimSpace l\<rparr> # ?rest"
      using scan_lines_acc [of n ls "[\<lparr>ResponseIndex = int i, Rank = r, Reasoning = TrimSpace l\<rparr>]" "r + 1"]
      by simp
    have "map (\<lambda>j. r + int j) [0..<Suc (length ?rest)] =
            r # map (\<lambda>j. r + 1 + int j) [0..<length ?rest]"
      by (simp add: upt_rec [of 0] map_Suc_upt [symmetric] del: upt_Suc)
    then show ?thesis using out Cons.IH [of "r + 1"] by simp
  qed
qed


lemma scan_lines_skip:
  "first_label (TrimSpace l) r n 0 labels = None \<Longrightarrow>
     fst (scan_lines n (l # ls) ([], r)) = fst (scan_lines n ls ([], r))"
  by simp

lemma scan_lines_commit:
  "first_label (TrimSpace l) r n 0 labels = Some i \<Longrightarrow>
     fst (scan_lines n (l # ls) ([], r)) =
       \<lparr>ResponseIndex = int i, Rank = r, Reasoning = TrimSpace l\<rparr> #
       fst (scan_lines n ls ([], r + 1))"
  using scan_lines_acc [of n ls "[\<lparr>ResponseIndex = int i, Rank = r, Reasoning = TrimSpace l\<rparr>]" "r + 1"]
  by simp

lemma scan_lines_length: "length (fst (scan_lines n ls ([], r))) \<le> length ls"
proof (induction ls arbitrary: r)
  case Nil
  show ?case by simp
next
  case (Cons l ls)
  show ?case
  proof (cases "first_label (TrimSpace l) r n 0 labels")
    case None
    from scan_lines_skip [OF None] Cons.IH [of r] show ?thesis
      by (simp del: scan_lines.simps)
  next
    case (Some i)
    from scan_lines_commit [OF Some] Cons.IH [of "r + 1"] show ?thesis
      by (simp del: scan_lines.simps)
  qed
qed

lemma scan_lines_subseq:
  "subseq (map Reasoning (fst (scan_lines n ls ([], r)))) (map TrimSpace ls)"
proof (induction ls arbitrary: r)
  case Nil
  show ?case by simp
next
  case (Cons l ls)
  show ?case
  proof (cases "first_label (TrimSpace l) r n 0 labels")
    case None
    from scan_lines_skip [OF None] Cons.IH [of r] show ?thesis
      by (auto simp del: scan_lines.simps intro: list_emb_Cons)
  next
    case (Some i)
    from scan_lines_commit [OF Some] Cons.IH [of "r + 1"] show ?thesis
      by (simp del: scan_lines.simps)
  qed
qed

lemma scan_lines_member:
  "x \<in> set (fst (scan_lines n ls ([], r))) \<Longrightarrow>
     \<exists>i. first_label (Reasoning x) (Rank x) n 0 labels = Some i \<and> ResponseIndex x = int i"
proof (induction ls arbitrary: r)
  case Nil
  then show ?case by simp
next
  case (Cons l ls)
  show ?case
  proof (cases "first_label (TrimSpace l) r n 0 labels")
    case None
    from scan_lines_skip [OF None] Cons.prems Cons.IH [of r] show ?thesis
      by (simp del: scan_lines.simps)
  next
    case (Some i)
    from scan_lines_commit [OF Some] Cons.prems
    have "x = \<lparr>ResponseIndex = int i, Rank = r, Reasoning = TrimSpace l\<rparr> \<or>
          x \<in> set (fst (scan_lines n ls ([], r + 1)))"
      by (simp del: scan_lines.simps)
    then show ?thesis
    proof
      assume "x = \<lparr>ResponseIndex = int i, Rank = r, Reasoning = TrimSpace l\<rparr>"
      with Some show ?thesis by simp
    next
      assume "x \<in> set (fst (scan_lines n ls ([], r + 1)))"
      then show ?thesis by (rule Cons.IH)
    qed
  qed
qed

lemma length_labels: "length labels = 8"
  by (simp add: labels_def)

text \<open>
  Claim C7.  With two eligible labels, the review text
  \<open>Ranking:\<close> / \<open>1. Response B: clear and correct\<close> / \<open>2. Response A: verbose\<close> (three
  lines) is read as two rankings, label B (index 1) at rank 1 and then label A (index 0)
  at rank 2, each carrying its trimmed line as reasoning; the text \<open>I liked them both\<close>
  is read as no ranking at all.
\<close>

theorem parseRankings_examples:
  "parseRankings ''Ranking:\<newline>1. Response B: clear and correct\<newline>2. Response A: verbose'' 2 =
     [\<lparr>ResponseIndex = 1, Rank = 1, Reasoning = ''1. Response B: clear and correct''\<rparr>,
      \<lparr>ResponseIndex = 0, Rank = 2, Reasoning = ''2. Response A: verbose''\<rparr>] \<and>
   parseRankings ''I liked them both'' 2 = []"
  by code_simp

text \<open>
  Claim C9.  For every review text and eligible count, the ranks of the returned list are
  1, 2, ..., k in list order, and every response index is at least 0 and strictly below
  the smaller of the eligible count and 8, the size of the label alphabet.
\<close>

theorem parseRankings_ranks_and_indices:
  "map Rank (parseRankings c n) = map int [1..<Suc (length (parseRankings c n))] \<and>
   (\<forall>x\<in>set (parseRankings c n). 0 \<le> ResponseIndex x \<and> ResponseIndex x < min n 8)"
proof
  have "map int [1..<Suc (length (parseRankings c n))] =
          map (\<lambda>j. 1 + int j) [0..<length (parseRankings c n)]"
    using map_Suc_upt [of 0 "length (parseRankings c n)"]
    by (simp add: map_Suc_upt [symmetric] o_def add.commute del: upt_Suc)
  then show "map Rank (parseRankings c n) = map int [1..<Suc (length (parseRankings c n))]"
    using scan_lines_ranks [of n "Split c" 1] by (simp add: parseRankings_def)
next
  show "\<forall>x\<in>set (parseRankings c n). 0 \<le> ResponseIndex x \<and> ResponseIndex x < min n 8"
  proof
    fix x
    assume "x \<in> set (parseRankings c n)"
    then obtain i where
      i: "first_label (Reasoning x) (Rank x) n 0 labels = Some i" "ResponseIndex x = int i"
      using scan_lines_member [of x n "Split c" 1] by (auto simp: parseRankings_def)
    from first_label_bounds [OF i(1)] have "i < 8" "int i < n"
      by (simp_all add: length_labels)
    with i(2) show "0 \<le> ResponseIndex x \<and> ResponseIndex x < min n 8" by simp
  qed
qed

text \<open>
  The theorem at a review of three lines, each of which commits: the list is not empty,
  its ranks count up from 1, and the index of its head is below \<open>min 3 8\<close>.
\<close>

theorem parseRankings_ranks_and_indices_witness:
  "parseRankings ''1. Response C\<newline>2: Response A\<newline>3. Response B'' 3 \<noteq> [] \<and>
   map Rank (parseRankings ''1. Response C\<newline>2: Response A\<newline>3. Response B'' 3) =
     map int [1..<Suc (length (parseRankings ''1. Response C\<newline>2: Response A\<newline>3. Response B'' 3))] \<and>
   ResponseIndex (hd (parseRankings ''1. Response C\<newline>2: Response A\<newline>3. Response B'' 3)) < min 3 8"
proof -
  have ne: "parseRankings ''1. Response C\<newline>2: Response A\<newline>3. Response B'' 3 \<noteq> []"
    by code_simp
  then have "hd (parseRankings ''1. Response C\<newline>2: Response A\<newline>3. Response B'' 3)
      \<in> set (parseRankings ''1. Response C\<newline>2: Response A\<newline>3. Response B'' 3)"
    by (rule hd_in_set)
  with ne show ?thesis
    using parseRankings_ranks_and_indices [of "''1. Response C\<newline>2: Response A\<newline>3. Response B''" 3]
    by blast
qed

text \<open>
  Claim C1 says that no two returned assertions resolve to the same response index.  The
  loop keeps no record of the labels it has committed: a line that names two labels
  commits the first of them in alphabet order, and a later line can commit that label
  again.  Here both lines are read as label A.
\<close>

theorem parseRankings_duplicate_label:
  "\<not> distinct (map ResponseIndex
      (parseRankings ''1. Response B: better than Response A\<newline>2. Response A: vague'' 2))"
  by code_simp

text \<open>
  How a review is read line by line: a text with one more line is split into the lines of
  the text before and that line, the loop over lines chained together goes through the
  first part and carries its state into the second, and the rank sought after some lines
  is the rank at their start plus the number of assertions they committed.
\<close>

lemma Split_nonempty: "Split s \<noteq> []"
  by (induction s) (simp_all split: list.splits)

lemma Split_one_line: "CHR 0x0A \<notin> set l \<Longrightarrow> Split l = [l]"
  by (induction l) auto

lemma Split_append_line: "Split (c @ CHR 0x0A # l) = Split c @ Split l"
proof (induction c)
  case Nil
  show ?case by simp
next
  case (Cons a c)
  obtain piece pieces where s: "Split c = piece # pieces"
    using Split_nonempty [of c] by (cases "Split c") simp_all
  with Cons.IH show ?case by simp
qed

lemma scan_lines_append:
  "scan_lines n (xs @ ys) st = scan_lines n ys (scan_lines n xs st)"
proof (induction xs arbitrary: st)
  case Nil
  show ?case by simp
next
  case (Cons l xs)
  obtain acc r where st: "st = (acc, r)" by (cases st)
  show ?case
    by (cases "first_label (TrimSpace l) r n 0 labels") (simp_all add: st Cons.IH)
qed

lemma scan_lines_sought:
  "snd (scan_lines n ls (acc, r)) = r + int (length (fst (scan_lines n ls ([], r))))"
proof (induction ls arbitrary: acc r)
  case Nil
  show ?case by simp
next
  case (Cons l ls)
  show ?case
  proof (cases "first_label (TrimSpace l) r n 0 labels")
    case None
    with Cons.IH [of acc r] show ?thesis by simp
  next
    case (Some i)
    let ?a = "\<lparr>ResponseIndex = int i, Rank = r, Reasoning = TrimSpace l\<rparr>"
    have "fst (scan_lines n ls ([?a], r + 1)) = ?a # fst (scan_lines n ls ([], r + 1))"
      using scan_lines_acc [of n ls "[?a]" "r + 1"] by simp
    with Some Cons.IH [of "acc @ [?a]" "r + 1"] show ?thesis by simp
  qed
qed

lemma scan_lines_one:
  "fst (scan_lines n [l] (acc, r)) =
     acc @ (case first_label (TrimSpace l) r n 0 labels of
              None \<Rightarrow> []
            | Some i \<Rightarrow> [\<lparr>ResponseIndex = int i, Rank = r, Reasoning = TrimSpace l\<rparr>])"
  by (cases "first_label (TrimSpace l) r n 0 labels") simp_all

lemma parseRankings_first_line:
  assumes "CHR 0x0A \<notin> set l"
  shows "parseRankings l n =
     (case first_label (TrimSpace l) 1 n 0 labels of
        None \<Rightarrow> []
      | Some i \<Rightarrow> [\<lparr>ResponseIndex = int i, Rank = 1, Reasoning = TrimSpace l\<rparr>])"
  using scan_lines_one [of n l "[]" 1] by (simp add: parseRankings_def Split_one_line [OF assms])

lemma parseRankings_next_line:
  assumes "CHR 0x0A \<notin> set l"
  shows "parseRankings (c @ CHR 0x0A # l) n =
     parseRankings c n @
     (case first_label (TrimSpace l) (int (length (parseRankings c n)) + 1) n 0 labels of
        None \<Rightarrow> []
      | Some i \<Rightarrow> [\<lparr>ResponseIndex = int i, Rank = int (length (parseRankings c n)) + 1,
                   Reasoning = TrimSpace l\<rparr>])"
proof -
  obtain acc r where st: "scan_lines n (Split c) ([], 1) = (acc, r)"
    by (cases "scan_lines n (Split c) ([], 1)")
  then have acc: "parseRankings c n = acc" by (simp add: parseRankings_def)
  from st scan_lines_sought [of n "Split c" "[]" 1] have r: "r = int (length acc) + 1"
    by simp
  have "parseRankings (c @ CHR 0x0A # l) n = fst (scan_lines n [l] (acc, r))"
    by (simp add: parseRankings_def Split_append_line Split_one_line [OF assms]
        scan_lines_append st del: scan_lines.simps)
  then show ?thesis
    using scan_lines_one [of n l acc r]
    by (simp add: acc r del: scan_lines.simps cong: option.case_cong)
qed

lemma first_label_None:
  "first_label line r n i0 ls = None \<Longrightarrow> k < length ls \<Longrightarrow> int (i0 + k) < n \<Longrightarrow>
     \<not> line_matches line r (ls ! k)"
proof (induction ls arbitrary: i0 k)
  case Nil
  then show ?case by simp
next
  case (Cons label rest)
  from Cons.prems(3) have i0: "int i0 < n" by simp
  show ?case
  proof (cases k)
    case 0
    with Cons.prems(1) i0 show ?thesis by (simp split: if_splits)
  next
    case (Suc k')
    from Cons.prems(1) i0 have "first_label line r n (Suc i0) rest = None"
      by (simp split: if_splits)
    from Cons.IH [OF this, of k'] Cons.prems(2,3) Suc show ?thesis by simp
  qed
qed

lemma first_label_iff:
  "first_label line r n 0 labels = Some i \<longleftrightarrow>
     i < length labels \<and> int i < n \<and> line_matches line r (labels ! i) \<and>
     (\<forall>j<i. \<not> line_matches line r (labels ! j))"
proof
  assume s: "first_label line r n 0 labels = Some i"
  from first_label_bounds [OF s] first_label_first [OF s]
  show "i < length labels \<and> int i < n \<and> line_matches line r (labels ! i) \<and>
     (\<forall>j<i. \<not> line_matches line r (labels ! j))"
    by simp
next
  assume a: "i < length labels \<and> int i < n \<and> line_matches line r (labels ! i) \<and>
     (\<forall>j<i. \<not> line_matches line r (labels ! j))"
  show "first_label line r n 0 labels = Some i"
  proof (cases "first_label line r n 0 labels")
    case None
    from first_label_None [OF None, of i] a show ?thesis by simp
  next
    case (Some k)
    from first_label_bounds [OF Some] first_label_first [OF Some]
    have k: "k < length labels" "int k < n" "line_matches line r (labels ! k)"
      "\<forall>j<k. \<not> line_matches line r (labels ! j)"
      by simp_all
    have "k = i"
    proof (rule ccontr)
      assume "k \<noteq> i"
      then consider "k < i" | "i < k" by (meson nat_neq_iff)
      then show False using a k by cases auto
    qed
    with Some show ?thesis by simp
  qed
qed

text \<open>
  Claim C1, as the code has it.  The lines of the review are read in order, and the rank
  sought at a line is one more than the number of assertions committed by the lines
  before it (1 at the first line).  A line commits an assertion exactly when its trimmed
  text names an eligible label as \<open>Response <label>\<close> together with the sought rank
  followed by a full stop or a colon: the assertion is for the first such label in the
  order A to H, carries the sought rank and the trimmed line and is added at the end of
  the list, and the sought rank advances by one.  A line that matches no eligible label
  commits nothing.  So the first line that matches the sought rank commits and advances,
  every line contributes at most one assertion, and the assertion at position \<open>k\<close>
  carries rank \<open>k + 1\<close>.  Whether a label was committed before plays no part: a label can
  be committed again by a later line.
\<close>

theorem parseRankings_line_commits:
  "length (parseRankings c n) \<le> length (Split c) \<and>
   subseq (map Reasoning (parseRankings c n)) (map TrimSpace (Split c)) \<and>
   (\<forall>x\<in>set (parseRankings c n).
      \<exists>i<length labels.
        ResponseIndex x = int i \<and> int i < n \<and>
        line_matches (Reasoning x) (Rank x) (labels ! i) \<and>
        (\<forall>j<i. \<not> line_matches (Reasoning x) (Rank x) (labels ! j))) \<and>
   (\<forall>k<length (parseRankings c n). Rank (parseRankings c n ! k) = int k + 1) \<and>
   (CHR 0x0A \<notin> set l \<longrightarrow>
      (i < length labels \<and> int i < n \<and> line_matches (TrimSpace l) 1 (labels ! i) \<and>
       (\<forall>j<i. \<not> line_matches (TrimSpace l) 1 (labels ! j)) \<longrightarrow>
         parseRankings l n = [\<lparr>ResponseIndex = int i, Rank = 1, Reasoning = TrimSpace l\<rparr>]) \<and>
      ((\<forall>j<length labels. int j < n \<longrightarrow> \<not> line_matches (TrimSpace l) 1 (labels ! j)) \<longrightarrow>
         parseRankings l n = []) \<and>
      (i < length labels \<and> int i < n \<and>
       line_matches (TrimSpace l) (int (length (parseRankings c n)) + 1) (labels ! i) \<and>
       (\<forall>j<i. \<not> line_matches (TrimSpace l) (int (length (parseRankings c n)) + 1) (labels ! j)) \<longrightarrow>
         parseRankings (c @ CHR 0x0A # l) n =
           parseRankings c n @
           [\<lparr>ResponseIndex = int i, Rank = int (length (parseRankings c n)) + 1,
             Reasoning = TrimSpace l\<rparr>]) \<and>
      ((\<forall>j<length labels. int j < n \<longrightarrow>
          \<not> line_matches (TrimSpace l) (int (length (parseRankings c n)) + 1) (labels ! j)) \<longrightarrow>
         parseRankings (c @ CHR 0x0A # l) n = parseRankings c n))"
proof (intro conjI impI)
  show "length (parseRankings c n) \<le> length (Split c)"
    using scan_lines_length [of n "Split c" 1] by (simp add: parseRankings_def)
  show "subseq (map Reasoning (parseRankings c n)) (map TrimSpace (Split c))"
    using scan_lines_subseq [of n "Split c" 1] by (simp add: parseRankings_def)
  show "\<forall>x\<in>set (parseRankings c n).
      \<exists>i<length labels.
        ResponseIndex x = int i \<and> int i < n \<and>
        line_matches (Reasoning x) (Rank x) (labels ! i) \<and>
        (\<forall>j<i. \<not> line_matches (Reasoning x) (Rank x) (labels ! j))"
  proof
    fix x
    assume "x \<in> set (parseRankings c n)"
    then obtain i where
      i: "first_label (Reasoning x) (Rank x) n 0 labels = Some i" "ResponseIndex x = int i"
      using scan_lines_member [of x n "Split c" 1] by (auto simp: parseRankings_def)
    from first_label_bounds [OF i(1)] have b: "i < length labels" "int i < n"
      by simp_all
    from first_label_first [OF i(1)] have
      "line_matches (Reasoning x) (Rank x) (labels ! i)"
      "\<forall>j<i. \<not> line_matches (Reasoning x) (Rank x) (labels ! j)"
      by simp_all
    with i(2) b show "\<exists>i<length labels.
        ResponseIndex x = int i \<and> int i < n \<and>
        line_matches (Reasoning x) (Rank x) (labels ! i) \<and>
        (\<forall>j<i. \<not> line_matches (Reasoning x) (Rank x) (labels ! j))"
      by blast
  qed
  show "\<forall>k<length (parseRankings c n). Rank (parseRankings c n ! k) = int k + 1"
  proof (intro allI impI)
    fix k
    assume k: "k < length (parseRankings c n)"
    have "map Rank (parseRankings c n) ! k =
            map (\<lambda>j. 1 + int j) [0..<length (parseRankings c n)] ! k"
      using scan_lines_ranks [of n "Split c" 1] by (simp add: parseRankings_def)
    with k show "Rank (parseRankings c n ! k) = int k + 1"
      by simp
  qed
next
  assume l: "CHR 0x0A \<notin> set l"
  assume "i < length labels \<and> int i < n \<and> line_matches (TrimSpace l) 1 (labels ! i) \<and>
       (\<forall>j<i. \<not> line_matches (TrimSpace l) 1 (labels ! j))"
  then have "first_label (TrimSpace l) 1 n 0 labels = Some i"
    by (simp add: first_label_iff)
  with parseRankings_first_line [OF l, of n]
  show "parseRankings l n = [\<lparr>ResponseIndex = int i, Rank = 1, Reasoning = TrimSpace l\<rparr>]"
    by simp
next
  assume l: "CHR 0x0A \<notin> set l"
  assume none: "\<forall>j<length labels. int j < n \<longrightarrow> \<not> line_matches (TrimSpace l) 1 (labels ! j)"
  have "first_label (TrimSpace l) 1 n 0 labels = None"
  proof (cases "first_label (TrimSpace l) 1 n 0 labels")
    case (Some k)
    with none show ?thesis by (auto simp: first_label_iff)
  qed simp
  with parseRankings_first_line [OF l, of n] show "parseRankings l n = []"
    by simp
next
  let ?r = "int (length (parseRankings c n)) + 1"
  assume l: "CHR 0x0A \<notin> set l"
  assume "i < length labels \<and> int i < n \<and> line_matches (TrimSpace l) ?r (labels ! i) \<and>
       (\<forall>j<i. \<not> line_matches (TrimSpace l) ?r (labels ! j))"
  then have "first_label (TrimSpace l) ?r n 0 labels = Some i"
    by (simp add: first_label_iff)
  with parseRankings_next_line [OF l, of c n]
  show "parseRankings (c @ CHR 0x0A # l) n =
          parseRankings c n @ [\<lparr>ResponseIndex = int i, Rank = ?r, Reasoning = TrimSpace l\<rparr>]"
    by simp
next
  let ?r = "int (length (parseRankings c n)) + 1"
  assume l: "CHR 0x0A \<notin> set l"
  assume none: "\<forall>j<length labels. int j < n \<longrightarrow> \<not> line_matches (TrimSpace l) ?r (labels ! j)"
  have "first_label (TrimSpace l) ?r n 0 labels = None"
  proof (cases "first_label (TrimSpace l) ?r n 0 labels")
    case (Some k)
    with none show ?thesis by (auto simp: first_label_iff)
  qed simp
  with parseRankings_next_line [OF l, of c n]
  show "parseRankings (c @ CHR 0x0A # l) n = parseRankings c n"
    by simp
qed

text \<open>
  The theorem at a review whose second line, indented, commits label B at rank 1 (label A
  comes first in the alphabet but is not named by that line), at that line alone, and at
  a second line that names no label and commits nothing.
\<close>

theorem parseRankings_line_commits_witness:
  "CHR 0x0A \<notin> set ''  1. Response B: concise'' \<and>
   line_matches (TrimSpace ''  1. Response B: concise'') 1 (labels ! 1) \<and>
   \<not> line_matches (TrimSpace ''  1. Response B: concise'') 1 (labels ! 0) \<and>
   parseRankings (''Ranking:'' @ CHR 0x0A # ''  1. Response B: concise'') 2 =
     [\<lparr>ResponseIndex = 1, Rank = 1, Reasoning = ''1. Response B: concise''\<rparr>] \<and>
   parseRankings ''  1. Response B: concise'' 2 =
     [\<lparr>ResponseIndex = 1, Rank = 1, Reasoning = ''1. Response B: concise''\<rparr>] \<and>
   parseRankings (''Ranking:'' @ CHR 0x0A # ''Overall: both are fine'') 2 = []"
proof -
  let ?l = "''  1. Response B: concise''"
  let ?o = "''Overall: both are fine''"
  have line: "CHR 0x0A \<notin> set ?l" "CHR 0x0A \<notin> set ?o"
    by simp_all
  have before: "parseRankings ''Ranking:'' 2 = []"
    by code_simp
  have trim: "TrimSpace ?l = ''1. Response B: concise''"
    by code_simp
  have b: "line_matches (TrimSpace ?l) 1 (labels ! 1)"
    by code_simp
  have a: "\<not> line_matches (TrimSpace ?l) 1 (labels ! 0)"
    by code_simp
  have first: "(1::nat) < length labels \<and> int 1 < 2 \<and>
      line_matches (TrimSpace ?l) 1 (labels ! 1) \<and>
      (\<forall>j<1. \<not> line_matches (TrimSpace ?l) 1 (labels ! j))"
    using a b by (simp add: length_labels)
  have no: "\<not> line_matches (TrimSpace ?o) 1 (labels ! 0)"
    "\<not> line_matches (TrimSpace ?o) 1 (labels ! 1)"
    by code_simp+
  have none: "\<forall>j<length labels. int j < 2 \<longrightarrow> \<not> line_matches (TrimSpace ?o) 1 (labels ! j)"
  proof (intro allI impI)
    fix j :: nat
    assume "j < length labels" "int j < 2"
    then have "j = 0 \<or> j = 1" by auto
    with no show "\<not> line_matches (TrimSpace ?o) 1 (labels ! j)" by auto
  qed
  from parseRankings_line_commits [where c = "''Ranking:''" and n = 2 and i = 1 and l = ?l]
    line(1) first before
  have "parseRankings (''Ranking:'' @ CHR 0x0A # ?l) 2 =
          [\<lparr>ResponseIndex = 1, Rank = 1, Reasoning = TrimSpace ?l\<rparr>]"
    and "parseRankings ?l 2 = [\<lparr>ResponseIndex = 1, Rank = 1, Reasoning = TrimSpace ?l\<rparr>]"
    by simp_all
  moreover
  from parseRankings_line_commits [where c = "''Ranking:''" and n = 2 and l = ?o]
    line(2) none before
  have "parseRankings (''Ranking:'' @ CHR 0x0A # ?o) 2 = []"
    by simp
  ultimately show ?thesis
    using line(1) a b by (simp only: trim simp_thms)
qed


section \<open>Properties of the fan-out\<close>

text \<open>
  Storing into slots: the length stays, and a slot holds the response of its goroutine
  once that goroutine has stored.
\<close>

lemma store_slot_length:
  "length (foldl (store_slot models runs) responses order) = length responses"
  by (induction order arbitrary: responses) (simp_all add: store_slot_def)

lemma store_slot_nth:
  "k < length responses \<Longrightarrow>
     foldl (store_slot models runs) responses order ! k =
       (if k \<in> set order then goroutine_response (models ! k) (runs k) else responses ! k)"
proof (induction order arbitrary: responses rule: rev_induct)
  case Nil
  show ?case by simp
next
  case (snoc idx order)
  let ?before = "foldl (store_slot models runs) responses order"
  have len: "length ?before = length responses"
    by (rule store_slot_length)
  have "foldl (store_slot models runs) responses (order @ [idx]) ! k =
          ?before[idx := goroutine_response (models ! idx) (runs idx)] ! k"
    by (simp add: store_slot_def)
  also have "\<dots> = (if k = idx then goroutine_response (models ! idx) (runs idx) else ?before ! k)"
    using snoc.prems len by (simp add: nth_list_update)
  finally show ?case
    using snoc.IH [OF snoc.prems] by auto
qed

lemma goroutine_response_Model: "Model (goroutine_response mdl run) = mdl"
  by (simp add: goroutine_response_def Let_def split: sdk_outcome.splits)

lemma goroutine_response_failed:
  "failed (outcome run) \<Longrightarrow>
     Error (goroutine_response mdl run) \<noteq> None \<and> Content (goroutine_response mdl run) = []"
  by (cases "outcome run") (simp_all add: goroutine_response_def Let_def)

text \<open>
  Claim C5.  When every goroutine of the fan-out has stored its slot once, in whatever
  order, \<open>AskMultipleModels\<close> returns one response per participant, and slot \<open>i\<close> is
  the response of the goroutine of participant \<open>i\<close>: it carries that participant's
  model, and when its session did not end with \<open>session.idle\<close> (an error of the SDK, or
  the deadline passing first) it carries an error and the empty text.  The slice is
  returned in every case: a failure is a value in its slot.  The right-hand side of the
  first equation does not mention the completion order.
\<close>

theorem AskMultipleModels_slots:
  assumes "completes_each_once (completion e) (length models)"
  shows "fst (AskMultipleModels e models question progress) =
           map (\<lambda>i. goroutine_response (models ! i) (fanout e i)) [0..<length models] \<and>
         length (fst (AskMultipleModels e models question progress)) = length models \<and>
         (\<forall>i<length models.
            Model (fst (AskMultipleModels e models question progress) ! i) = models ! i \<and>
            (failed (outcome (fanout e i)) \<longrightarrow>
               Error (fst (AskMultipleModels e models question progress) ! i) \<noteq> None \<and>
               Content (fst (AskMultipleModels e models question progress) ! i) = []))"
proof -
  let ?rs = "fst (AskMultipleModels e models question progress)"
  have len: "length ?rs = length models"
    by (simp add: AskMultipleModels_def store_slot_length)
  have nth: "?rs ! i = goroutine_response (models ! i) (fanout e i)" if "i < length models" for i
  proof -
    from assms that have "i \<in> set (completion e)"
      by (simp add: completes_each_once_def)
    with that show ?thesis
      by (simp add: AskMultipleModels_def store_slot_nth)
  qed
  have eq: "?rs = map (\<lambda>i. goroutine_response (models ! i) (fanout e i)) [0..<length models]"
    by (rule nth_equalityI) (simp_all add: len nth)
  from len nth eq show ?thesis
    by (simp add: goroutine_response_Model goroutine_response_failed)
qed

text \<open>
  The theorem at three participants that finish in the order 2, 0, 1, the second of which
  runs into its deadline.
\<close>

theorem AskMultipleModels_slots_witness:
  "completes_each_once [2, 0, 1] (length [''m0'', ''m1'', ''m2'']) \<and>
   length (fst (AskMultipleModels
      (sample_run [2, 0, 1] [SessionIdle ''yes'', ContextDone, SendFails ''broken pipe''] ContextDone)
      [''m0'', ''m1'', ''m2''] ''why?'' True)) = 3 \<and>
   fst (AskMultipleModels
      (sample_run [2, 0, 1] [SessionIdle ''yes'', ContextDone, SendFails ''broken pipe''] ContextDone)
      [''m0'', ''m1'', ''m2''] ''why?'' True) ! 1 =
     \<lparr>Model = ''m1'', Content = [], Error = Some ''timeout waiting for response'', Duration = 6\<rparr>"
proof -
  let ?e = "sample_run [2, 0, 1] [SessionIdle ''yes'', ContextDone, SendFails ''broken pipe''] ContextDone"
  let ?rs = "fst (AskMultipleModels ?e [''m0'', ''m1'', ''m2''] ''why?'' True)"
  have order: "completes_each_once (completion ?e) (length [''m0'', ''m1'', ''m2''])"
    by code_simp
  have order': "completes_each_once [2, 0, 1] (length [''m0'', ''m1'', ''m2''])"
    by code_simp
  note slots = AskMultipleModels_slots [OF order, of "''why?''" True]
  from slots have len: "length ?rs = length [''m0'', ''m1'', ''m2'']"
    by blast
  from slots have
    "?rs = map (\<lambda>i. goroutine_response ([''m0'', ''m1'', ''m2''] ! i) (fanout ?e i))
             [0..<length [''m0'', ''m1'', ''m2'']]"
    by blast
  then have "?rs ! 1 = goroutine_response ([''m0'', ''m1'', ''m2''] ! 1) (fanout ?e 1)"
    by simp
  also have "\<dots> =
      \<lparr>Model = ''m1'', Content = [], Error = Some ''timeout waiting for response'', Duration = 6\<rparr>"
    by code_simp
  finally show ?thesis
    using order' len by simp
qed



section \<open>Properties of the anonymized view\<close>

lemma others_skip: "i < j \<Longrightarrow> others i j rs = rs"
  by (induction rs arbitrary: j) simp_all

lemma others_take_drop: "j \<le> i \<Longrightarrow> others i j rs = take (i - j) rs @ drop (Suc (i - j)) rs"
proof (induction rs arbitrary: j)
  case Nil
  show ?case by simp
next
  case (Cons r rs)
  show ?case
  proof (cases "i = j")
    case True
    then show ?thesis by (simp add: others_skip)
  next
    case False
    with Cons.prems have "Suc j \<le> i" by simp
    from Cons.IH [OF this] False \<open>Suc j \<le> i\<close> show ?thesis
      by (simp add: Suc_diff_Suc take_Cons' drop_Cons')
  qed
qed

lemma labelled_zip: "labelled i rs = zip (drop i labels) rs"
proof (induction rs arbitrary: i)
  case Nil
  show ?case by simp
next
  case (Cons r rs)
  show ?case
  proof (cases "i < length labels")
    case True
    then have "drop i labels = labels ! i # drop (Suc i) labels"
      by (simp add: Cons_nth_drop_Suc)
    with True Cons.IH [of "Suc i"] show ?thesis by simp
  next
    case False
    with Cons.IH [of "Suc i"] show ?thesis by simp
  qed
qed

lemma zip_labels_snd: "length ys \<le> length xs \<Longrightarrow> map snd (zip xs ys) = ys"
  by (simp add: map_snd_zip_take)

lemma zip_labels_fst: "length ys = k \<Longrightarrow> k \<le> length xs \<Longrightarrow> map fst (zip xs ys) = take k xs"
  by (simp add: map_fst_zip_take min_def)

text \<open>
  Claim C6, as the code has it.  For every list of successful responses and every
  reviewer index, the anonymized responses are the other entries in their original
  order: the list without the entry at the reviewer's index.  The prompt labels them A,
  B, C, ... in that order as far as the eight labels go: the labelled entries are the
  labels zipped with the remainder.  With at most nine successful responses every entry
  of the remainder is labelled; and of \<open>[P0, P1, P2]\<close> without index 1, \<open>P0\<close> is
  labelled A and \<open>P2\<close> is labelled B.
\<close>

theorem anonymized_labels:
  "anonymizedResponses i rs = take i rs @ drop (Suc i) rs \<and>
   labelled 0 (anonymizedResponses i rs) = zip labels (take i rs @ drop (Suc i) rs) \<and>
   (i < length rs \<and> length rs \<le> 9 \<longrightarrow>
      map snd (labelled 0 (anonymizedResponses i rs)) = take i rs @ drop (Suc i) rs \<and>
      map fst (labelled 0 (anonymizedResponses i rs)) = take (length rs - 1) labels) \<and>
   labelled 0 (anonymizedResponses 1 [P0, P1, P2]) = [(''A'', P0), (''B'', P2)]"
proof (intro conjI impI)
  show a: "anonymizedResponses i rs = take i rs @ drop (Suc i) rs"
    using others_take_drop [of 0 i rs] by (simp add: anonymizedResponses_def)
  show z: "labelled 0 (anonymizedResponses i rs) = zip labels (take i rs @ drop (Suc i) rs)"
    by (simp add: a labelled_zip)
  show "labelled 0 (anonymizedResponses 1 [P0, P1, P2]) = [(''A'', P0), (''B'', P2)]"
    by (simp add: anonymizedResponses_def labels_def)
  assume b: "i < length rs \<and> length rs \<le> 9"
  then have l: "length (take i rs @ drop (Suc i) rs) = length rs - 1" by auto
  from b have "length rs - 1 \<le> 8" by arith
  with l have "length (take i rs @ drop (Suc i) rs) \<le> length labels"
    by (simp only: length_labels)
  then show "map snd (labelled 0 (anonymizedResponses i rs)) = take i rs @ drop (Suc i) rs"
    unfolding z by (rule zip_labels_snd)
  from \<open>length rs - 1 \<le> 8\<close> have "length rs - 1 \<le> length labels"
    by (simp only: length_labels)
  from zip_labels_fst [OF l this]
  show "map fst (labelled 0 (anonymizedResponses i rs)) = take (length rs - 1) labels"
    unfolding z .
qed

text \<open>The theorem at the first three of the ten sample responses and reviewer 1.\<close>

theorem anonymized_labels_witness:
  "(1::nat) < length (take 3 ten_responses) \<and> length (take 3 ten_responses) \<le> 9 \<and>
   map (Model \<circ> snd) (labelled 0 (anonymizedResponses 1 (take 3 ten_responses))) = [''m0'', ''m2''] \<and>
   map fst (labelled 0 (anonymizedResponses 1 (take 3 ten_responses))) = [''A'', ''B'']"
proof -
  have b: "(1::nat) < length (take 3 ten_responses) \<and> length (take 3 ten_responses) \<le> 9"
    by code_simp
  have r: "map Model (take 1 (take 3 ten_responses) @ drop (Suc 1) (take 3 ten_responses)) =
             [''m0'', ''m2'']"
    by code_simp
  have t: "take (length (take 3 ten_responses) - 1) labels = [''A'', ''B'']"
    by code_simp
  from anonymized_labels [of 1 "take 3 ten_responses"] b
  have "map snd (labelled 0 (anonymizedResponses 1 (take 3 ten_responses))) =
          take 1 (take 3 ten_responses) @ drop (Suc 1) (take 3 ten_responses)"
    and "map fst (labelled 0 (anonymizedResponses 1 (take 3 ten_responses))) =
          take (length (take 3 ten_responses) - 1) labels"
    by blast+
  with b r t show ?thesis
    by (simp del: map_append map_map add: map_map [symmetric])
qed

text \<open>
  Claim C6 says that every entry of the remainder gets a label.  The loop of
  \<open>buildReviewPrompt\<close> writes an entry only under the guard \<open>i < len(labels)\<close>, and
  there are eight labels.  With ten successful responses the first reviewer is left
  nine others: the last of them is among the anonymized responses but gets no label, and
  its text, unlike that of the one before it, is not in the prompt.
\<close>

theorem ninth_remaining_unlabelled:
  "length (filter usable ten_responses) = 10 \<and>
   ten_responses ! 9 \<in> set (anonymizedResponses 0 ten_responses) \<and>
   ten_responses ! 9 \<notin> snd ` set (labelled 0 (anonymizedResponses 0 ten_responses)) \<and>
   Contains (buildReviewPrompt ''why?'' (anonymizedResponses 0 ten_responses))
       (Content (ten_responses ! 8)) \<and>
   \<not> Contains (buildReviewPrompt ''why?'' (anonymizedResponses 0 ten_responses))
       (Content (ten_responses ! 9))"
  by code_simp


section \<open>Properties of a run\<close>

text \<open>
  \<open>Execute\<close> in terms of the points of the run, on its two paths; what
  \<open>AskSingleModel\<close> returns; and the calls in the events of each stage.
\<close>

lemma successCount_zero: "successCount rs = 0 \<longleftrightarrow> filter usable rs = []"
  by (simp add: successCount_def)

lemma Execute_no_success:
  assumes "filter usable (fst (stage1 e cfg q progress)) = []"
  shows "Execute e cfg q progress phase =
     (\<lparr>ModelResponses = fst (stage1 e cfg q progress), Reviews = [], AggregatedResponse = [],
       AggregationDuration = 0, ReviewDuration = 0, InitialPrompt = q,
       ReviewPrompts = Map.empty, AggregationPrompt = [],
       Result_Error = Some ''all models failed to respond''\<rparr>,
      snd (stage1 e cfg q progress))"
  using assms
  by (simp add: Execute_def stage1_def successCount_def split_def Let_def)

lemma Execute_some_success:
  assumes "filter usable (fst (stage1 e cfg q progress)) \<noteq> []"
  shows "Execute e cfg q progress phase =
     (case snd (snd (AskSingleModel (Aggregator cfg) (aggregator_run e cfg q progress phase))) of
        Some cause \<Rightarrow>
          \<lparr>ModelResponses = fst (stage1 e cfg q progress),
           Reviews = fst (stage2 e cfg q progress phase), AggregatedResponse = [],
           AggregationDuration = 0, ReviewDuration = since_reviewStart e, InitialPrompt = q,
           ReviewPrompts = fst (snd (stage2 e cfg q progress phase)),
           AggregationPrompt = aggregator_prompt e cfg q progress phase,
           Result_Error = Some (''aggregation failed: '' @ cause)\<rparr>
      | None \<Rightarrow>
          \<lparr>ModelResponses = fst (stage1 e cfg q progress),
           Reviews = fst (stage2 e cfg q progress phase),
           AggregatedResponse =
             fst (AskSingleModel (Aggregator cfg) (aggregator_run e cfg q progress phase)),
           AggregationDuration =
             fst (snd (AskSingleModel (Aggregator cfg) (aggregator_run e cfg q progress phase))),
           ReviewDuration = since_reviewStart e, InitialPrompt = q,
           ReviewPrompts = fst (snd (stage2 e cfg q progress phase)),
           AggregationPrompt = aggregator_prompt e cfg q progress phase,
           Result_Error = None\<rparr>,
      snd (snd (stage2 e cfg q progress phase)) @
      [CallBegin (Aggregator cfg) (aggregator_prompt e cfg q progress phase),
       CallEnd (Aggregator cfg)])"
  using assms
  by (simp add: Execute_def stage1_def stage2_def aggregator_prompt_def aggregator_run_def
      call_single_def successCount_def split_def Let_def split: option.splits)

lemma AskSingleModel_failed:
  "failed (outcome run) \<Longrightarrow>
     \<exists>cause. AskSingleModel model run = ([], elapsed run, Some cause)"
  by (cases "outcome run") (simp_all add: AskSingleModel_def)

lemma AskSingleModel_idle:
  "outcome run = SessionIdle content \<Longrightarrow> AskSingleModel model run = (content, elapsed run, None)"
  by (simp add: AskSingleModel_def)

lemma AskSingleModel_timeout:
  "outcome run = ContextDone \<Longrightarrow>
     AskSingleModel model run = ([], elapsed run, Some ''timeout waiting for response'')"
  by (simp add: AskSingleModel_def)

lemma callers_append: "callers (xs @ ys) = callers xs @ callers ys"
  by (induction xs rule: callers.induct) simp_all

lemma open_append: "foldl open_after n (xs @ ys) = foldl open_after (foldl open_after n xs) ys"
  by simp

lemma peak_open_ge: "n \<le> peak_open n xs"
  by (cases xs) simp_all

lemma peak_open_append:
  "peak_open n (xs @ ys) = max (peak_open n xs) (peak_open (foldl open_after n xs) ys)"
  by (induction xs arbitrary: n) (simp_all add: max.assoc max.absorb2 peak_open_ge)

lemma stage1_callers: "callers (snd (AskMultipleModels e models q progress)) = []"
proof -
  have "callers (map (\<lambda>idx. goroutine_progress (models ! idx) (fanout e idx)) order) = []" for order
    by (induction order) (simp_all add: goroutine_progress_def)
  then show ?thesis
    by (simp add: AskMultipleModels_def callers_append)
qed

lemma stage1_open:
  "foldl open_after n (snd (AskMultipleModels e models q progress)) = n \<and>
   peak_open n (snd (AskMultipleModels e models q progress)) = n"
proof -
  have a: "foldl open_after n (map (\<lambda>idx. goroutine_progress (models ! idx) (fanout e idx)) order) = n"
    for order n
    by (induction order) (simp_all add: goroutine_progress_def)
  have b: "peak_open n (map (\<lambda>idx. goroutine_progress (models ! idx) (fanout e idx)) order) = n"
    for order n
    by (induction order) (simp_all add: goroutine_progress_def)
  show ?thesis
    by (simp add: AskMultipleModels_def peak_open_append a b)
qed

lemma call_single_events:
  "snd (call_single e tr model question) = tr @ [CallBegin model question, CallEnd model]"
  by (simp add: call_single_def Let_def)

lemma review_loop_events:
  assumes "foldl open_after 0 tr = 0" and "peak_open 0 tr \<le> 1"
  shows "foldl open_after 0 (snd (snd (review_loop e q succ progress i rest (rv, pr, tr)))) = 0 \<and>
         peak_open 0 (snd (snd (review_loop e q succ progress i rest (rv, pr, tr)))) \<le> 1 \<and>
         callers (snd (snd (review_loop e q succ progress i rest (rv, pr, tr)))) =
           callers tr @ map Model rest \<and>
         map ReviewerModel (fst (review_loop e q succ progress i rest (rv, pr, tr))) =
           map ReviewerModel rv @ map Model rest"
  using assms
proof (induction rest arbitrary: i rv pr tr)
  case Nil
  then show ?case by simp
next
  case (Cons reviewer rest)
  define prompt where "prompt = buildReviewPrompt q (anonymizedResponses i succ)"
  define ans where "ans = fst (call_single e tr (Model reviewer) prompt)"
  define tr' where "tr' = tr @ [CallBegin (Model reviewer) prompt, CallEnd (Model reviewer)] @
             (if progress
              then [Progress (Model reviewer @ '' (review)'') (fst (snd ans)) (snd (snd ans))]
              else [])"
  define review where "review = \<lparr>ReviewerModel = Model reviewer,
      Rankings = (if snd (snd ans) = None
                  then parseRankings (fst ans) (int (length (anonymizedResponses i succ)))
                  else []),
      Review_Duration = fst (snd ans), Review_Error = snd (snd ans)\<rparr>"
  define out where "out = review_loop e q succ progress (Suc i) rest
        (rv @ [review], pr(Model reviewer \<mapsto> prompt), tr')"
  have step: "review_loop e q succ progress i (reviewer # rest) (rv, pr, tr) = out"
    by (simp add: out_def review_def tr'_def ans_def prompt_def Let_def split_def
        call_single_events)
  have o: "foldl open_after 0 tr' = 0"
    using Cons.prems by (simp add: tr'_def)
  have p: "peak_open 0 tr' \<le> 1"
    using Cons.prems by (simp add: tr'_def peak_open_append)
  have c: "callers tr' = callers tr @ [Model reviewer]"
    by (simp add: tr'_def callers_append)
  have r: "map ReviewerModel (rv @ [review]) = map ReviewerModel rv @ [Model reviewer]"
    by (simp add: review_def)
  from Cons.IH [OF o p, of "Suc i" "rv @ [review]" "pr(Model reviewer \<mapsto> prompt)"]
  have "foldl open_after 0 (snd (snd out)) = 0 \<and> peak_open 0 (snd (snd out)) \<le> 1 \<and>
        callers (snd (snd out)) = callers tr' @ map Model rest \<and>
        map ReviewerModel (fst out) = map ReviewerModel (rv @ [review]) @ map Model rest"
    unfolding out_def .
  then show ?case
    unfolding step c r by simp
qed

lemma phase_events:
  "foldl open_after n (if phase then [Phase name count] else []) = n \<and>
   peak_open n (if phase then [Phase name count] else []) = n \<and>
   callers (if phase then [Phase name count] else []) = []"
  by simp

lemma stage2_skipped:
  assumes "length (filter usable (fst (stage1 e cfg q progress))) < 2"
  shows "stage2 e cfg q progress phase =
     ([], Map.empty,
      snd (stage1 e cfg q progress) @
      (if phase then [Phase ''review'' (successCount (fst (stage1 e cfg q progress)))] else []))"
  using assms by (simp add: stage2_def conductPeerReview_def Let_def)

lemma stage2_events:
  "foldl open_after 0 (snd (snd (stage2 e cfg q progress phase))) = 0 \<and>
   peak_open 0 (snd (snd (stage2 e cfg q progress phase))) \<le> 1 \<and>
   callers (snd (snd (stage2 e cfg q progress phase))) =
     (if length (filter usable (fst (stage1 e cfg q progress))) < 2 then []
      else map Model (filter usable (fst (stage1 e cfg q progress)))) \<and>
   map ReviewerModel (fst (stage2 e cfg q progress phase)) =
     (if length (filter usable (fst (stage1 e cfg q progress))) < 2 then []
      else map Model (filter usable (fst (stage1 e cfg q progress))))"
proof -
  define tr where "tr = snd (stage1 e cfg q progress) @
      (if phase then [Phase ''review'' (successCount (fst (stage1 e cfg q progress)))] else [])"
  have o: "foldl open_after 0 tr = 0"
    using stage1_open [of 0 e "Models cfg" q progress] by (simp add: tr_def stage1_def)
  have p: "peak_open 0 tr \<le> 1"
    using stage1_open [of 0 e "Models cfg" q progress]
    by (simp add: tr_def stage1_def peak_open_append)
  have c: "callers tr = []"
    using stage1_callers [of e "Models cfg" q progress]
    by (simp add: tr_def stage1_def callers_append)
  show ?thesis
  proof (cases "length (filter usable (fst (stage1 e cfg q progress))) < 2")
    case True
    from stage2_skipped [OF True, of phase] o p c True show ?thesis
      by (simp add: tr_def)
  next
    case False
    then have "stage2 e cfg q progress phase =
        review_loop e q (filter usable (fst (stage1 e cfg q progress))) progress 0
          (filter usable (fst (stage1 e cfg q progress))) ([], Map.empty, tr)"
      by (simp add: stage2_def conductPeerReview_def Let_def tr_def)
    with review_loop_events [OF o p, of e q _ progress 0 _ "[]" Map.empty] False c
    show ?thesis by simp
  qed
qed

text \<open>
  Claim C2.  If no response of the fan-out is without error and with text, \<open>Execute\<close>
  returns the error \<open>all models failed to respond\<close>, no reviews and no aggregated text
  (nor an aggregation prompt), with the responses of the fan-out; the events of the run
  are those of the fan-out alone, so there is no phase callback and no call of
  \<open>AskSingleModel\<close>, neither for a reviewer nor for the aggregator.
\<close>

theorem Execute_all_models_failed:
  assumes "\<forall>r\<in>set (fst (AskMultipleModels e (Models cfg) q progress)). \<not> usable r"
  shows "Result_Error (fst (Execute e cfg q progress phase)) = Some ''all models failed to respond'' \<and>
         Reviews (fst (Execute e cfg q progress phase)) = [] \<and>
         AggregatedResponse (fst (Execute e cfg q progress phase)) = [] \<and>
         AggregationPrompt (fst (Execute e cfg q progress phase)) = [] \<and>
         ModelResponses (fst (Execute e cfg q progress phase)) =
           fst (AskMultipleModels e (Models cfg) q progress) \<and>
         snd (Execute e cfg q progress phase) = snd (AskMultipleModels e (Models cfg) q progress) \<and>
         callers (snd (Execute e cfg q progress phase)) = []"
proof -
  from assms have "filter usable (fst (stage1 e cfg q progress)) = []"
    by (simp add: stage1_def filter_empty_conv)
  from Execute_no_success [OF this, of phase] show ?thesis
    by (simp add: stage1_def stage1_callers)
qed

text \<open>
  The theorem at two participants, one whose \<open>Send\<close> fails and one whose session goes
  idle without text.
\<close>

theorem Execute_all_models_failed_witness:
  "Result_Error (fst (Execute
      (sample_run [1, 0] [SendFails ''broken pipe'', SessionIdle []] (SessionIdle ''final''))
      (sample_cfg 2) ''why?'' True True)) = Some ''all models failed to respond'' \<and>
   snd (Execute
      (sample_run [1, 0] [SendFails ''broken pipe'', SessionIdle []] (SessionIdle ''final''))
      (sample_cfg 2) ''why?'' True True) =
     [FanOut [''m0'', ''m1''] ''why?'', Progress ''m1'' 6 None,
      Progress ''m0'' 5 (Some ''broken pipe''), FanIn]"
proof -
  let ?e = "sample_run [1, 0] [SendFails ''broken pipe'', SessionIdle []] (SessionIdle ''final'')"
  have none: "\<forall>r\<in>set (fst (AskMultipleModels ?e (Models (sample_cfg 2)) ''why?'' True)). \<not> usable r"
    by code_simp
  have tr: "snd (AskMultipleModels ?e (Models (sample_cfg 2)) ''why?'' True) =
     [FanOut [''m0'', ''m1''] ''why?'', Progress ''m1'' 6 None,
      Progress ''m0'' 5 (Some ''broken pipe''), FanIn]"
    by code_simp
  from Execute_all_models_failed [OF none, of True] tr show ?thesis
    by simp
qed

text \<open>
  Claim C3 says that the review duration is zero when the peer review is skipped.
  \<open>Execute\<close> reads the clock before and after \<open>conductPeerReview\<close> in every run that
  gets there, and stores the difference.  In this run one of two participants succeeds,
  there are no reviews, and the stored duration is the 1500 nanoseconds that passed.
\<close>

theorem review_skipped_duration:
  "length (filter usable (ModelResponses (fst (Execute
      (sample_run [1, 0] [SessionIdle ''yes'', ContextDone] (SessionIdle ''final''))
      (sample_cfg 2) ''why?'' True True)))) = 1 \<and>
   Reviews (fst (Execute
      (sample_run [1, 0] [SessionIdle ''yes'', ContextDone] (SessionIdle ''final''))
      (sample_cfg 2) ''why?'' True True)) = [] \<and>
   ReviewDuration (fst (Execute
      (sample_run [1, 0] [SessionIdle ''yes'', ContextDone] (SessionIdle ''final''))
      (sample_cfg 2) ''why?'' True True)) = 1500"
  by code_simp

text \<open>
  Claim C3, as the code has it.  If fewer than two responses of the fan-out are without
  error and with text, \<open>Execute\<close> returns no reviews and no review prompts.  With
  exactly one such response the review duration is what the clock measured around the
  skipped stage, and the aggregation still runs: after the events of the fan-out (and
  the phase callback, if given) the only further events are the one call of the
  aggregator, with the prompt built from the responses of the fan-out and no reviews.
  With no such response the review duration is zero and nothing is called.
\<close>

theorem Execute_review_skipped:
  assumes "length (filter usable (fst (AskMultipleModels e (Models cfg) q progress))) < 2"
  shows "Reviews (fst (Execute e cfg q progress phase)) = [] \<and>
         ReviewPrompts (fst (Execute e cfg q progress phase)) = Map.empty \<and>
         (length (filter usable (fst (AskMultipleModels e (Models cfg) q progress))) = 1 \<longrightarrow>
            ReviewDuration (fst (Execute e cfg q progress phase)) = since_reviewStart e \<and>
            AggregationPrompt (fst (Execute e cfg q progress phase)) =
              buildAggregationPrompt q (fst (AskMultipleModels e (Models cfg) q progress)) [] \<and>
            snd (Execute e cfg q progress phase) =
              snd (AskMultipleModels e (Models cfg) q progress) @
              (if phase then [Phase ''review'' 1] else []) @
              [CallBegin (Aggregator cfg)
                 (buildAggregationPrompt q (fst (AskMultipleModels e (Models cfg) q progress)) []),
               CallEnd (Aggregator cfg)]) \<and>
         (length (filter usable (fst (AskMultipleModels e (Models cfg) q progress))) = 0 \<longrightarrow>
            ReviewDuration (fst (Execute e cfg q progress phase)) = 0 \<and>
            callers (snd (Execute e cfg q progress phase)) = [])"
proof (cases "filter usable (fst (stage1 e cfg q progress)) = []")
  case True
  from Execute_no_success [OF True, of phase] True show ?thesis
    by (simp add: stage1_def stage1_callers)
next
  case False
  with assms have one: "length (filter usable (fst (stage1 e cfg q progress))) = 1"
    by (cases "filter usable (fst (stage1 e cfg q progress))") (simp_all add: stage1_def)
  from assms have skip: "stage2 e cfg q progress phase =
     ([], Map.empty,
      snd (stage1 e cfg q progress) @
      (if phase then [Phase ''review'' (successCount (fst (stage1 e cfg q progress)))] else []))"
    by (intro stage2_skipped) (simp add: stage1_def)
  have "successCount (fst (stage1 e cfg q progress)) = 1"
    using one by (simp add: successCount_def)
  with Execute_some_success [OF False, of phase] skip one show ?thesis
    by (cases phase) (simp_all add: aggregator_prompt_def stage1_def split: option.splits)
qed

text \<open>The theorem at two participants of which the first runs into its deadline.\<close>

theorem Execute_review_skipped_witness:
  "length (filter usable (fst (AskMultipleModels
      (sample_run [1, 0] [ContextDone, SessionIdle ''yes''] (SessionIdle ''final''))
      (Models (sample_cfg 2)) ''why?'' False))) = 1 \<and>
   Reviews (fst (Execute
      (sample_run [1, 0] [ContextDone, SessionIdle ''yes''] (SessionIdle ''final''))
      (sample_cfg 2) ''why?'' False True)) = [] \<and>
   ReviewDuration (fst (Execute
      (sample_run [1, 0] [ContextDone, SessionIdle ''yes''] (SessionIdle ''final''))
      (sample_cfg 2) ''why?'' False True)) = 1500 \<and>
   callers (snd (Execute
      (sample_run [1, 0] [ContextDone, SessionIdle ''yes''] (SessionIdle ''final''))
      (sample_cfg 2) ''why?'' False True)) = [''chair'']"
proof -
  let ?e = "sample_run [1, 0] [ContextDone, SessionIdle ''yes''] (SessionIdle ''final'')"
  have one: "length (filter usable (fst (AskMultipleModels ?e (Models (sample_cfg 2)) ''why?'' False))) = 1"
    by code_simp
  then have less: "length (filter usable (fst (AskMultipleModels ?e (Models (sample_cfg 2)) ''why?'' False))) < 2"
    by simp
  have since: "since_reviewStart ?e = 1500"
    by (simp add: sample_run_def)
  have agg: "Aggregator (sample_cfg 2) = ''chair''"
    by (simp add: sample_cfg_def)
  from Execute_review_skipped [OF less, of True] one since agg stage1_callers [of ?e "Models (sample_cfg 2)" "''why?''" False]
  show ?thesis
    by (simp add: callers_append)
qed

text \<open>
  Claim C4.  If some response of the fan-out is without error and with text, and the
  aggregator's session does not end with \<open>session.idle\<close> (an error of the SDK, or the
  deadline passing first), then \<open>Execute\<close> returns an error \<open>aggregation failed: ...\<close>
  (for the deadline, \<open>aggregation failed: timeout waiting for response\<close>) and no
  aggregated text, while the result still holds the responses of the fan-out and the
  reviews of the peer review, one per successful response when there are at least two.
\<close>

theorem Execute_aggregation_failed:
  assumes "\<exists>r\<in>set (fst (stage1 e cfg q progress)). usable r"
    and "failed (outcome (aggregator_run e cfg q progress phase))"
  shows "(\<exists>cause. Result_Error (fst (Execute e cfg q progress phase)) =
                     Some (''aggregation failed: '' @ cause)) \<and>
         (outcome (aggregator_run e cfg q progress phase) = ContextDone \<longrightarrow>
            Result_Error (fst (Execute e cfg q progress phase)) =
              Some ''aggregation failed: timeout waiting for response'') \<and>
         AggregatedResponse (fst (Execute e cfg q progress phase)) = [] \<and>
         ModelResponses (fst (Execute e cfg q progress phase)) =
           fst (AskMultipleModels e (Models cfg) q progress) \<and>
         Reviews (fst (Execute e cfg q progress phase)) = fst (stage2 e cfg q progress phase) \<and>
         map ReviewerModel (Reviews (fst (Execute e cfg q progress phase))) =
           (if length (filter usable (fst (AskMultipleModels e (Models cfg) q progress))) < 2
            then []
            else map Model (filter usable (fst (AskMultipleModels e (Models cfg) q progress))))"
proof -
  from assms(1) have some: "filter usable (fst (stage1 e cfg q progress)) \<noteq> []"
    by (simp add: filter_empty_conv)
  from AskSingleModel_failed [OF assms(2), of "Aggregator cfg"] obtain cause where
    c: "AskSingleModel (Aggregator cfg) (aggregator_run e cfg q progress phase) =
          ([], elapsed (aggregator_run e cfg q progress phase), Some cause)"
    by blast
  have t: "outcome (aggregator_run e cfg q progress phase) = ContextDone \<Longrightarrow>
        cause = ''timeout waiting for response''"
    using c by (simp add: AskSingleModel_def)
  from Execute_some_success [OF some, of phase] c have
    err: "Result_Error (fst (Execute e cfg q progress phase)) =
            Some (''aggregation failed: '' @ cause)" and
    agg: "AggregatedResponse (fst (Execute e cfg q progress phase)) = []" and
    mr: "ModelResponses (fst (Execute e cfg q progress phase)) =
           fst (AskMultipleModels e (Models cfg) q progress)" and
    rv: "Reviews (fst (Execute e cfg q progress phase)) = fst (stage2 e cfg q progress phase)"
    by (simp_all add: stage1_def)
  from err t have "outcome (aggregator_run e cfg q progress phase) = ContextDone \<longrightarrow>
      Result_Error (fst (Execute e cfg q progress phase)) =
        Some ''aggregation failed: timeout waiting for response''"
    by simp
  moreover from stage2_events [of e cfg q progress phase]
  have "map ReviewerModel (Reviews (fst (Execute e cfg q progress phase))) =
           (if length (filter usable (fst (AskMultipleModels e (Models cfg) q progress))) < 2
            then []
            else map Model (filter usable (fst (AskMultipleModels e (Models cfg) q progress))))"
    unfolding rv stage1_def by blast
  moreover from err have "\<exists>cause. Result_Error (fst (Execute e cfg q progress phase)) =
                     Some (''aggregation failed: '' @ cause)"
    by blast
  ultimately show ?thesis
    using agg mr rv by (intro conjI)
qed

text \<open>
  The theorem at three participants of which two succeed and review each other, and an
  aggregator that runs into its deadline.
\<close>

theorem Execute_aggregation_failed_witness:
  "Result_Error (fst (Execute
      (sample_run [2, 0, 1] [SessionIdle ''yes'', ContextDone, SessionIdle ''no''] ContextDone)
      (sample_cfg 3) ''why?'' True True)) =
     Some ''aggregation failed: timeout waiting for response'' \<and>
   AggregatedResponse (fst (Execute
      (sample_run [2, 0, 1] [SessionIdle ''yes'', ContextDone, SessionIdle ''no''] ContextDone)
      (sample_cfg 3) ''why?'' True True)) = [] \<and>
   map Content (ModelResponses (fst (Execute
      (sample_run [2, 0, 1] [SessionIdle ''yes'', ContextDone, SessionIdle ''no''] ContextDone)
      (sample_cfg 3) ''why?'' True True))) = [''yes'', [], ''no''] \<and>
   map ReviewerModel (Reviews (fst (Execute
      (sample_run [2, 0, 1] [SessionIdle ''yes'', ContextDone, SessionIdle ''no''] ContextDone)
      (sample_cfg 3) ''why?'' True True))) = [''m0'', ''m2'']"
proof -
  let ?e = "sample_run [2, 0, 1] [SessionIdle ''yes'', ContextDone, SessionIdle ''no''] ContextDone"
  have some: "\<exists>r\<in>set (fst (stage1 ?e (sample_cfg 3) ''why?'' True)). usable r"
    by code_simp
  have chair: "outcome (aggregator_run ?e (sample_cfg 3) ''why?'' True True) = ContextDone"
    by (simp add: aggregator_run_def sample_run_def sample_cfg_def)
  then have fails: "failed (outcome (aggregator_run ?e (sample_cfg 3) ''why?'' True True))"
    by simp
  have rs: "map Content (fst (AskMultipleModels ?e (Models (sample_cfg 3)) ''why?'' True)) =
              [''yes'', [], ''no'']"
    by code_simp
  have succ: "map Model (filter usable (fst (AskMultipleModels ?e (Models (sample_cfg 3)) ''why?'' True))) =
              [''m0'', ''m2'']"
    by code_simp
  have two: "\<not> length (filter usable (fst (AskMultipleModels ?e (Models (sample_cfg 3)) ''why?'' True))) < 2"
    by code_simp
  note failure = Execute_aggregation_failed [OF some fails]
  from failure chair have err:
    "Result_Error (fst (Execute ?e (sample_cfg 3) ''why?'' True True)) =
       Some ''aggregation failed: timeout waiting for response''"
    by blast
  from failure have agg: "AggregatedResponse (fst (Execute ?e (sample_cfg 3) ''why?'' True True)) = []"
    by blast
  from failure have
    "ModelResponses (fst (Execute ?e (sample_cfg 3) ''why?'' True True)) =
       fst (AskMultipleModels ?e (Models (sample_cfg 3)) ''why?'' True)"
    by blast
  with rs have mr:
    "map Content (ModelResponses (fst (Execute ?e (sample_cfg 3) ''why?'' True True))) =
       [''yes'', [], ''no'']"
    by (simp only:)
  from failure have
    "map ReviewerModel (Reviews (fst (Execute ?e (sample_cfg 3) ''why?'' True True))) =
       (if length (filter usable (fst (AskMultipleModels ?e (Models (sample_cfg 3)) ''why?'' True))) < 2
        then []
        else map Model (filter usable (fst (AskMultipleModels ?e (Models (sample_cfg 3)) ''why?'' True))))"
    by blast
  with two succ have rv:
    "map ReviewerModel (Reviews (fst (Execute ?e (sample_cfg 3) ''why?'' True True))) = [''m0'', ''m2'']"
    by (simp only: if_False)
  from err agg mr rv show ?thesis
    by (intro conjI)
qed

text \<open>
  Claim C10.  If some response of the fan-out is without error and with text, and the
  aggregator's session goes idle with the empty text, then \<open>Execute\<close> returns no error
  and the empty aggregated response, with the duration of the aggregator's call: the
  run, in which every reviewer and then the aggregator was called, counts as a success.
\<close>

theorem Execute_empty_synthesis:
  assumes "\<exists>r\<in>set (fst (stage1 e cfg q progress)). usable r"
    and "outcome (aggregator_run e cfg q progress phase) = SessionIdle []"
  shows "Result_Error (fst (Execute e cfg q progress phase)) = None \<and>
         AggregatedResponse (fst (Execute e cfg q progress phase)) = [] \<and>
         AggregationDuration (fst (Execute e cfg q progress phase)) =
           elapsed (aggregator_run e cfg q progress phase) \<and>
         callers (snd (Execute e cfg q progress phase)) =
           (if length (filter usable (fst (stage1 e cfg q progress))) < 2 then []
            else map Model (filter usable (fst (stage1 e cfg q progress)))) @ [Aggregator cfg]"
proof -
  from assms(1) have some: "filter usable (fst (stage1 e cfg q progress)) \<noteq> []"
    by (simp add: filter_empty_conv)
  note idle = AskSingleModel_idle [OF assms(2), of "Aggregator cfg"]
  from Execute_some_success [OF some, of phase] idle have
    "Result_Error (fst (Execute e cfg q progress phase)) = None"
    "AggregatedResponse (fst (Execute e cfg q progress phase)) = []"
    "AggregationDuration (fst (Execute e cfg q progress phase)) =
       elapsed (aggregator_run e cfg q progress phase)"
    and tr: "snd (Execute e cfg q progress phase) =
           snd (snd (stage2 e cfg q progress phase)) @
           [CallBegin (Aggregator cfg) (aggregator_prompt e cfg q progress phase),
            CallEnd (Aggregator cfg)]"
    by simp_all
  moreover from stage2_events [of e cfg q progress phase]
  have "callers (snd (Execute e cfg q progress phase)) =
           (if length (filter usable (fst (stage1 e cfg q progress))) < 2 then []
            else map Model (filter usable (fst (stage1 e cfg q progress)))) @ [Aggregator cfg]"
    unfolding tr callers_append by simp
  ultimately show ?thesis
    by (intro conjI)
qed

text \<open>The theorem at two participants of which one succeeds, and a silent aggregator.\<close>

theorem Execute_empty_synthesis_witness:
  "Result_Error (fst (Execute
      (sample_run [0, 1] [SessionIdle ''yes'', SendFails ''broken pipe''] (SessionIdle []))
      (sample_cfg 2) ''why?'' False False)) = None \<and>
   AggregatedResponse (fst (Execute
      (sample_run [0, 1] [SessionIdle ''yes'', SendFails ''broken pipe''] (SessionIdle []))
      (sample_cfg 2) ''why?'' False False)) = [] \<and>
   AggregationDuration (fst (Execute
      (sample_run [0, 1] [SessionIdle ''yes'', SendFails ''broken pipe''] (SessionIdle []))
      (sample_cfg 2) ''why?'' False False)) = 40"
proof -
  let ?e = "sample_run [0, 1] [SessionIdle ''yes'', SendFails ''broken pipe''] (SessionIdle [])"
  have some: "\<exists>r\<in>set (fst (stage1 ?e (sample_cfg 2) ''why?'' False)). usable r"
    by code_simp
  have chair: "aggregator_run ?e (sample_cfg 2) ''why?'' False False =
                 \<lparr>outcome = SessionIdle [], elapsed = 40\<rparr>"
    by (simp add: aggregator_run_def sample_run_def sample_cfg_def)
  then have idle: "outcome (aggregator_run ?e (sample_cfg 2) ''why?'' False False) = SessionIdle []"
    by simp
  from Execute_empty_synthesis [OF some idle] chair show ?thesis
    by simp
qed

text \<open>
  Claim C8 says that the calls of the reviewers run concurrently.  \<open>conductPeerReview\<close>
  starts no goroutine: its loop calls \<open>AskSingleModel\<close> and has the result before it
  goes on to the next reviewer.  In this run with two reviewers there is never more than
  one call open: the call of \<open>m2\<close> is entered after the call of \<open>m0\<close> has returned.
\<close>

theorem reviewers_not_concurrent:
  "map ReviewerModel (Reviews (fst (Execute
      (sample_run [2, 0, 1] [SessionIdle ''yes'', ContextDone, SessionIdle ''no''] (SessionIdle ''final''))
      (sample_cfg 3) ''why?'' False False))) = [''m0'', ''m2''] \<and>
   peak_open 0 (snd (Execute
      (sample_run [2, 0, 1] [SessionIdle ''yes'', ContextDone, SessionIdle ''no''] (SessionIdle ''final''))
      (sample_cfg 3) ''why?'' False False)) = 1 \<and>
   map (\<lambda>ev. case ev of CallBegin model question \<Rightarrow> ''begin '' @ model
                        | CallEnd model \<Rightarrow> ''end '' @ model | other \<Rightarrow> [])
     (snd (Execute
      (sample_run [2, 0, 1] [SessionIdle ''yes'', ContextDone, SessionIdle ''no''] (SessionIdle ''final''))
      (sample_cfg 3) ''why?'' False False)) =
     [[], [], ''begin m0'', ''end m0'', ''begin m2'', ''end m2'', ''begin chair'', ''end chair'']"
  by code_simp

text \<open>
  Claim C8, as the code has it.  In every run of \<open>Execute\<close> the calls of
  \<open>AskSingleModel\<close> are made one after another: at no time is more than one of them
  entered and not yet returned, and all have returned at the end.  When at least two
  responses are without error and with text, their models are called as reviewers in
  the order of the responses, one review each, and then the aggregator is called, once;
  with one such response only the aggregator is called, and with none nothing is.
\<close>

theorem Execute_calls_in_sequence:
  "peak_open 0 (snd (Execute e cfg q progress phase)) \<le> 1 \<and>
   foldl open_after 0 (snd (Execute e cfg q progress phase)) = 0 \<and>
   callers (snd (Execute e cfg q progress phase)) =
     (if filter usable (fst (stage1 e cfg q progress)) = [] then []
      else (if length (filter usable (fst (stage1 e cfg q progress))) < 2 then []
            else map Model (filter usable (fst (stage1 e cfg q progress)))) @
           [Aggregator cfg]) \<and>
   map ReviewerModel (Reviews (fst (Execute e cfg q progress phase))) =
     (if length (filter usable (fst (stage1 e cfg q progress))) < 2 then []
      else map Model (filter usable (fst (stage1 e cfg q progress))))"
proof (cases "filter usable (fst (stage1 e cfg q progress)) = []")
  case True
  from Execute_no_success [OF True, of phase] True
    stage1_open [of 0 e "Models cfg" q progress] stage1_callers [of e "Models cfg" q progress]
  show ?thesis
    by (simp add: stage1_def)
next
  case False
  from Execute_some_success [OF False, of phase] have
    rv: "Reviews (fst (Execute e cfg q progress phase)) = fst (stage2 e cfg q progress phase)" and
    tr: "snd (Execute e cfg q progress phase) =
           snd (snd (stage2 e cfg q progress phase)) @
           [CallBegin (Aggregator cfg) (aggregator_prompt e cfg q progress phase),
            CallEnd (Aggregator cfg)]"
    by (simp_all split: option.splits)
  note ev = stage2_events [of e cfg q progress phase]
  from ev have "peak_open 0 (snd (Execute e cfg q progress phase)) \<le> 1"
    unfolding tr by (simp add: peak_open_append)
  moreover from ev have "foldl open_after 0 (snd (Execute e cfg q progress phase)) = 0"
    unfolding tr by simp
  moreover from ev False have "callers (snd (Execute e cfg q progress phase)) =
     (if filter usable (fst (stage1 e cfg q progress)) = [] then []
      else (if length (filter usable (fst (stage1 e cfg q progress))) < 2 then []
            else map Model (filter usable (fst (stage1 e cfg q progress)))) @
           [Aggregator cfg])"
    unfolding tr callers_append by simp
  moreover from ev have "map ReviewerModel (Reviews (fst (Execute e cfg q progress phase))) =
     (if length (filter usable (fst (stage1 e cfg q progress))) < 2 then []
      else map Model (filter usable (fst (stage1 e cfg q progress))))"
    unfolding rv by blast
  ultimately show ?thesis
    by (intro conjI)
qed

text \<open>The theorem at three participants that all succeed.\<close>

theorem Execute_calls_in_sequence_witness:
  "peak_open 0 (snd (Execute
      (sample_run [0, 1, 2] [SessionIdle ''yes'', SessionIdle ''no'', SessionIdle ''maybe'']
         (SessionIdle ''final''))
      (sample_cfg 3) ''why?'' True True)) \<le> 1 \<and>
   callers (snd (Execute
      (sample_run [0, 1, 2] [SessionIdle ''yes'', SessionIdle ''no'', SessionIdle ''maybe'']
         (SessionIdle ''final''))
      (sample_cfg 3) ''why?'' True True)) = [''m0'', ''m1'', ''m2'', ''chair'']"
proof -
  let ?e = "sample_run [0, 1, 2] [SessionIdle ''yes'', SessionIdle ''no'', SessionIdle ''maybe'']
              (SessionIdle ''final'')"
  have succ: "map Model (filter usable (fst (stage1 ?e (sample_cfg 3) ''why?'' True))) =
                [''m0'', ''m1'', ''m2'']"
    by code_simp
  then have some: "filter usable (fst (stage1 ?e (sample_cfg 3) ''why?'' True)) \<noteq> []"
    and many: "\<not> length (filter usable (fst (stage1 ?e (sample_cfg 3) ''why?'' True))) < 2"
    using length_map [of Model "filter usable (fst (stage1 ?e (sample_cfg 3) ''why?'' True))"]
    by auto
  have agg: "Aggregator (sample_cfg 3) = ''chair''"
    by (simp add: sample_cfg_def)
  note run = Execute_calls_in_sequence [of ?e "sample_cfg 3" "''why?''" True True]
  from run have "peak_open 0 (snd (Execute ?e (sample_cfg 3) ''why?'' True True)) \<le> 1"
    by blast
  moreover from run have "callers (snd (Execute ?e (sample_cfg 3) ''why?'' True True)) =
     (if filter usable (fst (stage1 ?e (sample_cfg 3) ''why?'' True)) = [] then []
      else (if length (filter usable (fst (stage1 ?e (sample_cfg 3) ''why?'' True))) < 2 then []
            else map Model (filter usable (fst (stage1 ?e (sample_cfg 3) ''why?'' True)))) @
           [Aggregator (sample_cfg 3)])"
    by blast
  with some many succ agg
  have "callers (snd (Execute ?e (sample_cfg 3) ''why?'' True True)) =
          [''m0'', ''m1'', ''m2'', ''chair'']"
    by simp
  ultimately show ?thesis
    by (intro conjI)
qed

end
